theory Spec2Isabelle
  imports Main
begin

section \<open>Characters and numbers\<close>

text \<open>
  Strings are lists of 8-bit characters read as code units (\<open>charCodeAt\<close> is
  \<open>of_char\<close>, \<open>String.fromCharCode\<close> is \<open>char_of\<close>).

  JavaScript numbers are IEEE 754 doubles. Row and column numbers and the counters of
  the addressing loops hold integers; a finite integer-valued double is written as the
  \<open>int\<close> it equals, and every arithmetic result is the exact result rounded to the
  nearest double, ties to even (\<open>roundToDouble\<close>), or an infinity on overflow
  (\<open>toNumber\<close>). Every integer of magnitude up to \<open>2 ^ 53\<close> is a double, so nothing is
  rounded there. An \<open>int\<close> that is not the value of a double does not stand for an
  argument the code can receive.
\<close>

definition isUpper :: "char \<Rightarrow> bool" where
  \<comment> \<open>the regular expression class \<open>[A-Z]\<close>\<close>
  "isUpper c \<longleftrightarrow> (65::nat) \<le> of_char c \<and> of_char c \<le> (90::nat)"

definition isDigit :: "char \<Rightarrow> bool" where
  \<comment> \<open>the regular expression class \<open>\d\<close>, which is \<open>[0-9]\<close>\<close>
  "isDigit c \<longleftrightarrow> (48::nat) \<le> of_char c \<and> of_char c \<le> (57::nat)"

function digitsOf :: "int \<Rightarrow> string" where
  "digitsOf n =
     (if n < 10 then [char_of (48 + n)]
      else digitsOf (n div 10) @ [char_of (48 + n mod 10)])"
  by pat_completeness auto
termination
  by (relation "measure nat") auto

declare digitsOf.simps [simp del]

definition decimalText :: "int \<Rightarrow> string" where
  \<comment> \<open>the decimal digits of an integer, with a leading minus sign when negative\<close>
  "decimalText n = (if n < 0 then CHR ''-'' # digitsOf (- n) else digitsOf n)"

primrec decimalValue :: "int \<Rightarrow> string \<Rightarrow> int" where
  "decimalValue acc [] = acc"
| "decimalValue acc (ch # rest) = decimalValue (acc * 10 + (of_char ch - 48)) rest"

definition decimalNumber :: "string \<Rightarrow> int" where
  \<comment> \<open>the integer that a run of decimal digits writes\<close>
  "decimalNumber ds = decimalValue 0 ds"

subsection \<open>Doubles that hold integers\<close>

function bitLength :: "int \<Rightarrow> nat" where
  "bitLength n = (if n \<le> 0 then 0 else Suc (bitLength (n div 2)))"
  by pat_completeness auto
termination
  by (relation "measure nat") auto

declare bitLength.simps [simp del]

definition roundHalfEven :: "int \<Rightarrow> int \<Rightarrow> int" where
  \<comment> \<open>the integer nearest to \<open>p / q\<close> for \<open>q > 0\<close>, the even one of two equally near\<close>
  "roundHalfEven p q =
     (let d = p div q; r = p mod q
      in if 2 * r < q then d
         else if q < 2 * r then d + 1
         else if even d then d else d + 1)"

definition roundToDouble :: "int \<Rightarrow> int" where
  \<comment> \<open>the double nearest to an integer, with 53 significant bits and the exponent
      not yet bounded\<close>
  "roundToDouble n =
     (let b = bitLength \<bar>n\<bar>
      in if b \<le> 53 then n
         else sgn n * (roundHalfEven \<bar>n\<bar> (2 ^ (b - 53)) * 2 ^ (b - 53)))"

datatype js_number = Finite int | PosInfinity | NegInfinity

definition toNumber :: "int \<Rightarrow> js_number" where
  \<comment> \<open>the Number value of an exact integer result: rounded, and an infinity when the
      rounded magnitude reaches \<open>2 ^ 1024\<close>\<close>
  "toNumber n =
     (let r = roundToDouble n
      in if 2 ^ 1024 \<le> r then PosInfinity
         else if r \<le> - (2 ^ 1024) then NegInfinity
         else Finite r)"

definition quotientFloor :: "int \<Rightarrow> int \<Rightarrow> int" where
  \<comment> \<open>\<open>Math.floor(p / q)\<close> for doubles \<open>p \<ge> 0\<close> and \<open>q > 0\<close> holding integers: the
      quotient is rounded to 53 significant bits (its leading bit is that of
      \<open>p div q\<close>), then floored\<close>
  "quotientFloor p q =
     (if p < q then 0
      else let b = bitLength (p div q)
           in if b \<le> 53 then roundHalfEven (p * 2 ^ (53 - b)) q div 2 ^ (53 - b)
              else roundHalfEven p (q * 2 ^ (b - 53)) * 2 ^ (b - 53))"

definition times26 :: "js_number \<Rightarrow> js_number" where
  \<comment> \<open>\<open>x * 26\<close>\<close>
  "times26 x =
     (case x of
        Finite a \<Rightarrow> toNumber (a * 26)
      | PosInfinity \<Rightarrow> PosInfinity
      | NegInfinity \<Rightarrow> NegInfinity)"

definition plusInt :: "js_number \<Rightarrow> int \<Rightarrow> js_number" where
  \<comment> \<open>\<open>x + d\<close> for a finite integer \<open>d\<close>\<close>
  "plusInt x d =
     (case x of
        Finite a \<Rightarrow> toNumber (a + d)
      | PosInfinity \<Rightarrow> PosInfinity
      | NegInfinity \<Rightarrow> NegInfinity)"

text \<open>Bounds on the rounded values, as far as the termination of \<open>columnToLetter\<close> needs them.\<close>

lemma bitLength_bounds:
  "0 < n \<Longrightarrow> 2 ^ (bitLength n - 1) \<le> n \<and> n < 2 ^ bitLength n"
proof (induction n rule: bitLength.induct)
  case (1 n)
  show ?case
  proof (cases "n = 1")
    case True
    then show ?thesis by (simp add: bitLength.simps [of 1] bitLength.simps [of 0])
  next
    case False
    with "1.prems" have h: "0 < n div 2" by simp
    have ih: "2 ^ (bitLength (n div 2) - 1) \<le> n div 2 \<and> n div 2 < 2 ^ bitLength (n div 2)"
      using "1.IH" "1.prems" h by simp
    have pos: "0 < bitLength (n div 2)" using h by (subst bitLength.simps) simp
    have b: "bitLength n = Suc (bitLength (n div 2))"
      using "1.prems" by (subst bitLength.simps) simp
    define A :: int where "A = 2 ^ (bitLength (n div 2) - 1)"
    have p: "(2::int) ^ bitLength (n div 2) = 2 * A"
      using pos unfolding A_def by (cases "bitLength (n div 2)") simp_all
    have a: "A \<le> n div 2" "n div 2 < 2 * A" using ih unfolding p A_def by simp_all
    have "2 * A \<le> n" "n < 4 * A" using a by linarith+
    then show ?thesis unfolding b by (simp add: p)
  qed
qed

lemma bitLength_le: "0 \<le> n \<Longrightarrow> n < 2 ^ k \<Longrightarrow> bitLength n \<le> k"
proof (rule ccontr)
  assume n: "0 \<le> n" "n < 2 ^ k" and c: "\<not> bitLength n \<le> k"
  then have pos: "0 < n" by (cases "n = 0") (simp_all add: bitLength.simps [of 0])
  have "(2::int) ^ k \<le> 2 ^ (bitLength n - 1)"
    using c by (intro power_increasing) simp_all
  with bitLength_bounds [OF pos] n(2) show False by linarith
qed

lemma roundHalfEven_bounds:
  "0 < q \<Longrightarrow> p div q \<le> roundHalfEven p q \<and> roundHalfEven p q \<le> p div q + 1"
  by (simp add: roundHalfEven_def Let_def)

lemma roundHalfEven_twice:
  assumes "0 < q"
  shows "2 * q * roundHalfEven p q \<le> 2 * p + q"
proof -
  define d where "d = p div q"
  define r where "r = p mod q"
  have p: "p = q * d + r" by (simp add: d_def r_def)
  have r: "0 \<le> r" "r < q" using assms by (simp_all add: r_def)
  have "roundHalfEven p q = d \<or> (roundHalfEven p q = d + 1 \<and> q \<le> 2 * r)"
    by (auto simp: roundHalfEven_def Let_def d_def r_def)
  then show ?thesis
  proof
    assume "roundHalfEven p q = d"
    then show ?thesis using r assms by (simp add: p algebra_simps)
  next
    assume "roundHalfEven p q = d + 1 \<and> q \<le> 2 * r"
    then show ?thesis using r assms by (simp add: p algebra_simps)
  qed
qed

lemma div_between:
  fixes m a d :: int
  assumes "0 < d" "a * d \<le> m" "m < (a + 1) * d"
  shows "m div d = a"
proof (rule int_div_pos_eq [of m d a "m - a * d"])
  show "m = d * a + (m - a * d)" by simp
  show "0 \<le> m - a * d" using assms(2) by simp
  show "m - a * d < d" using assms(3) by (simp add: algebra_simps)
qed

lemma int_div_bounds:
  fixes x q :: int
  assumes "0 < q"
  shows "q * (x div q) \<le> x" "x < q * (x div q) + q"
  using mult_div_mod_eq [of q x] pos_mod_sign [OF assms, of x] pos_mod_bound [OF assms, of x]
  by linarith+

lemma int_le_div:
  fixes x q a :: int
  assumes "0 < q" "q * a \<le> x"
  shows "a \<le> x div q"
proof -
  have "(q * a) div q \<le> x div q" using assms by (intro zdiv_mono1) simp_all
  then show ?thesis using assms(1) by simp
qed

lemma int_div_less:
  fixes x q c :: int
  assumes "0 < q" "x < q * c"
  shows "x div q < c"
proof -
  have "q * (x div q) < q * c" using int_div_bounds(1) [OF assms(1), of x] assms(2) by linarith
  then show ?thesis using assms(1) by (simp add: mult_less_cancel_left_pos)
qed

lemma bitLength_nonpos: "n \<le> 0 \<Longrightarrow> bitLength n = 0"
  by (subst bitLength.simps) simp

lemma roundToDouble_small: "\<bar>n\<bar> < 2 ^ 53 \<Longrightarrow> roundToDouble n = n"
proof -
  assume "\<bar>n\<bar> < 2 ^ 53"
  then have "bitLength \<bar>n\<bar> \<le> 53" by (intro bitLength_le) simp_all
  then show ?thesis by (simp add: roundToDouble_def Let_def)
qed

lemma roundToDouble_exact: "\<bar>n\<bar> \<le> 2 ^ 53 \<Longrightarrow> roundToDouble n = n"
proof (cases "\<bar>n\<bar> < 2 ^ 53")
  case True
  then show ?thesis by (rule roundToDouble_small)
next
  case False
  assume "\<bar>n\<bar> \<le> 2 ^ 53"
  with False have "n = 2 ^ 53 \<or> n = - (2 ^ 53)" by linarith
  moreover have "roundToDouble (2 ^ 53) = 2 ^ 53" by code_simp
  moreover have "roundToDouble (- (2 ^ 53)) = - (2 ^ 53)" by code_simp
  ultimately show ?thesis by auto
qed

lemma roundToDouble_le_twice:
  assumes "0 < x"
  shows "roundToDouble x \<le> 2 * x"
proof (cases "bitLength \<bar>x\<bar> \<le> 53")
  case True
  then show ?thesis using assms by (simp add: roundToDouble_def Let_def)
next
  case False
  define b where "b = bitLength x"
  define u :: int where "u = 2 ^ (b - 53)"
  have b: "53 < b" using False assms by (simp add: b_def)
  have upos: "0 < u" by (simp add: u_def)
  have "u \<le> 2 ^ (b - 1)" unfolding u_def by (intro power_increasing) simp_all
  also have "\<dots> \<le> x" using bitLength_bounds [OF assms] by (simp add: b_def)
  finally have ux: "u \<le> x" .
  have r: "roundToDouble x = roundHalfEven x u * u"
    using False assms by (simp add: roundToDouble_def Let_def b_def u_def)
  have "roundHalfEven x u * u \<le> (x div u + 1) * u"
    using roundHalfEven_bounds [OF upos, of x] upos by (simp add: mult_right_mono)
  also have "\<dots> = (x div u) * u + u" by (simp add: algebra_simps)
  also have "\<dots> \<le> x + u"
  proof -
    have "x div u * u + x mod u = x" by simp
    moreover have "0 \<le> x mod u" using upos by simp
    ultimately show ?thesis by linarith
  qed
  finally show ?thesis using ux r by linarith
qed

lemma quotientFloor_small: "p < 26 \<Longrightarrow> quotientFloor p 26 = 0"
  by (simp add: quotientFloor_def)

lemma quotientFloor_bound:
  assumes "26 \<le> p"
  shows "0 \<le> quotientFloor p 26 \<and> quotientFloor p 26 \<le> 2 * (p div 26)"
proof -
  define a where "a = p div 26"
  define b where "b = bitLength a"
  have a1: "1 \<le> a" using assms unfolding a_def by simp
  have pa: "26 * a \<le> p" "p < 26 * (a + 1)"
    unfolding a_def using int_div_bounds [of 26 p] by simp_all
  show ?thesis
  proof (cases "b \<le> 53")
    case True
    define k where "k = 53 - b"
    define m where "m = roundHalfEven (p * 2 ^ k) 26"
    have q: "quotientFloor p 26 = m div 2 ^ k"
      using assms True by (simp add: quotientFloor_def Let_def a_def b_def k_def m_def)
    have "p * 2 ^ k < (26 * (a + 1)) * 2 ^ k"
      using pa(2) by (intro mult_strict_right_mono) simp_all
    then have "p * 2 ^ k < 26 * ((a + 1) * 2 ^ k)" by (simp add: algebra_simps)
    then have "(p * 2 ^ k) div 26 < (a + 1) * 2 ^ k"
      by (intro int_div_less) simp_all
    then have mu: "m \<le> (a + 1) * 2 ^ k"
      using roundHalfEven_bounds [of 26 "p * 2 ^ k"] by (simp add: m_def)
    have "0 \<le> (p * 2 ^ k) div 26" using assms by (simp add: pos_imp_zdiv_nonneg_iff)
    then have ml: "0 \<le> m"
      using roundHalfEven_bounds [of 26 "p * 2 ^ k"] by (simp add: m_def)
    have "m div 2 ^ k \<le> ((a + 1) * 2 ^ k) div 2 ^ k"
      using mu by (intro zdiv_mono1) simp_all
    then have "m div 2 ^ k \<le> a + 1" by simp
    moreover have "0 \<le> m div 2 ^ k" using ml by (simp add: pos_imp_zdiv_nonneg_iff)
    ultimately show ?thesis using a1 unfolding q a_def [symmetric] by linarith
  next
    case False
    define j where "j = b - 53"
    define u :: int where "u = 2 ^ j"
    have upos: "0 < u" by (simp add: u_def)
    have q: "quotientFloor p 26 = roundHalfEven p (26 * u) * u"
      using assms False by (simp add: quotientFloor_def Let_def a_def b_def j_def u_def)
    have apos: "0 < a" using a1 by simp
    have "u \<le> 2 ^ (b - 1)" unfolding u_def j_def by (intro power_increasing) simp_all
    also have "\<dots> \<le> a" using bitLength_bounds [OF apos] by (simp add: b_def)
    finally have ua: "u \<le> a" .
    have d: "p div (26 * u) = a div u"
      using upos by (simp add: a_def zdiv_zmult2_eq)
    have "roundHalfEven p (26 * u) \<le> a div u + 1"
      using roundHalfEven_bounds [of "26 * u" p] upos by (simp add: d)
    then have "roundHalfEven p (26 * u) * u \<le> (a div u + 1) * u"
      using upos by (simp add: mult_right_mono)
    also have "\<dots> = a div u * u + u" by (simp add: algebra_simps)
    also have "\<dots> \<le> a + u"
    proof -
      have "a div u * u + a mod u = a" by simp
      moreover have "0 \<le> a mod u" using upos by simp
      ultimately show ?thesis by linarith
    qed
    finally have up: "roundHalfEven p (26 * u) * u \<le> 2 * a" using ua by linarith
    have "0 \<le> p div (26 * u)" using assms upos by (simp add: pos_imp_zdiv_nonneg_iff)
    then have "0 \<le> roundHalfEven p (26 * u)"
      using roundHalfEven_bounds [of "26 * u" p] upos by simp
    then have "0 \<le> roundHalfEven p (26 * u) * u" using upos by simp
    then show ?thesis using up unfolding q a_def [symmetric] by simp
  qed
qed

lemma columnToLetter_step_less:
  assumes "0 \<le> col"
  shows "roundToDouble (quotientFloor col 26 - 1) < col"
proof (cases "col < 26")
  case True
  have "roundToDouble (- 1) = - 1" by (rule roundToDouble_small) simp
  then show ?thesis using True assms by (simp add: quotientFloor_small)
next
  case False
  then have c: "26 \<le> col" by simp
  define x where "x = quotientFloor col 26 - 1"
  have b: "- 1 \<le> x" "x \<le> 2 * (col div 26) - 1"
    using quotientFloor_bound [OF c] by (simp_all add: x_def)
  have d: "26 * (col div 26) \<le> col"
    using int_div_bounds(1) [of 26 col] by simp
  show ?thesis
  proof (cases "0 < x")
    case True
    have "roundToDouble x \<le> 2 * x" by (rule roundToDouble_le_twice [OF True])
    then show ?thesis using b d c unfolding x_def [symmetric] by linarith
  next
    case False
    then have "\<bar>x\<bar> < 2 ^ 53" using b by simp
    then have "roundToDouble x = x" by (rule roundToDouble_small)
    then show ?thesis using False c unfolding x_def [symmetric] by linarith
  qed
qed

lemma quotientFloor_exact:
  assumes "0 \<le> p" "p < 2 ^ 53"
  shows "quotientFloor p 26 = p div 26"
proof (cases "p < 26")
  case True
  then show ?thesis using assms by (simp add: quotientFloor_small)
next
  case False
  then have c: "26 \<le> p" by simp
  define a where "a = p div 26"
  define r where "r = p mod 26"
  define b where "b = bitLength a"
  define k where "k = 53 - b"
  define m where "m = roundHalfEven (p * 2 ^ k) 26"
  have p: "p = 26 * a + r" by (simp add: a_def r_def)
  have "r < 26" unfolding r_def by (rule pos_mod_bound) simp
  then have r: "0 \<le> r" "r \<le> 25" by (simp_all add: r_def)
  have a0: "0 \<le> a" using assms by (simp add: a_def pos_imp_zdiv_nonneg_iff)
  have "26 * a < 26 * 2 ^ 49" using assms(2) p r by simp
  then have "a < 2 ^ 49" by simp
  then have b49: "b \<le> 49" unfolding b_def using a0 by (intro bitLength_le) simp_all
  then have k4: "4 \<le> k" by (simp add: k_def)
  have "(2::int) ^ 4 \<le> 2 ^ k" using k4 by (intro power_increasing) simp_all
  then have k16: "(16::int) \<le> 2 ^ k" by simp
  have q: "quotientFloor p 26 = m div 2 ^ k"
    using c b49 by (simp add: quotientFloor_def Let_def a_def b_def k_def m_def)
  have lo: "a * 2 ^ k \<le> m"
  proof -
    have "26 * (a * 2 ^ k) \<le> p * 2 ^ k" using r by (simp add: p algebra_simps)
    then have "a * 2 ^ k \<le> (p * 2 ^ k) div 26"
      by (intro int_le_div) simp_all
    then show ?thesis using roundHalfEven_bounds [of 26 "p * 2 ^ k"] by (simp add: m_def)
  qed
  have "52 * m \<le> 2 * (p * 2 ^ k) + 26"
    using roundHalfEven_twice [of 26 "p * 2 ^ k"] by (simp add: m_def)
  also have "\<dots> = 52 * (a * 2 ^ k) + 2 * r * 2 ^ k + 26" by (simp add: p algebra_simps)
  also have "\<dots> \<le> 52 * (a * 2 ^ k) + 50 * 2 ^ k + 26"
    using r by (simp add: mult_right_mono)
  also have "\<dots> < 52 * (a * 2 ^ k) + 52 * 2 ^ k" using k16 by simp
  finally have hi: "m < (a + 1) * 2 ^ k" by (simp add: algebra_simps)
  have "m div 2 ^ k = a" by (rule div_between [OF _ lo hi]) simp
  then show ?thesis by (simp add: q a_def)
qed

section \<open>The JavaScript host\<close>

text \<open>
  What the code asks of the JavaScript engine and library is not part of the
  repository. Its behaviour is fixed below only where the language leaves no doubt,
  and is otherwise a parameter, a \<open>js_host\<close>, so that every theorem holds for every
  engine that agrees with the fixed part. The parameters:

  \<^item> \<open>host_run t e\<close> is the outcome of the \<open>try\<close> block of \<open>evaluateFormula\<close> on the
    expression \<open>e\<close> when it is run on occasion \<open>t\<close>. The script is arbitrary code: what
    it returns may depend on the clock, the random generator and whatever earlier
    scripts left behind, so the same text may give different outcomes on different
    occasions.
  \<^item> \<open>host_parseFloat s\<close> is \<open>None\<close> when \<open>parseFloat(s)\<close> is \<open>NaN\<close> and the
    \<open>toString()\<close> of the number otherwise.
  \<^item> \<open>host_locale s\<close> is \<open>parseFloat(s).toLocaleString()\<close>.
  \<^item> \<open>host_date s\<close> is \<open>new Date(s)\<close>, a valid date being given by its
    \<open>toLocaleDateString()\<close>.
  \<^item> \<open>host_numberText n\<close> is the \<open>toString()\<close> of the integer-valued double \<open>n\<close> of
    magnitude above \<open>2 ^ 53\<close> (the shortest digits that read back as \<open>n\<close>, in exponent
    form from \<open>10 ^ 21\<close>).
  \<^item> \<open>host_parseInt ds\<close> is \<open>parseInt\<close> of a run of digits with more than 20 significant
    digits, where the language lets the implementation drop digits.
\<close>

datatype js_outcome = Returns string | Throws

datatype js_date = InvalidDate | ValidDate string

record js_host =
  host_run :: "nat \<Rightarrow> string \<Rightarrow> js_outcome"
  host_parseFloat :: "string \<Rightarrow> string option"
  host_locale :: "string \<Rightarrow> string"
  host_date :: "string \<Rightarrow> js_date"
  host_numberText :: "int \<Rightarrow> string"
  host_parseInt :: "string \<Rightarrow> js_number"

definition numberToString :: "js_host \<Rightarrow> js_number \<Rightarrow> string" where
  \<comment> \<open>\<open>Number.prototype.toString\<close> (and template-literal conversion) of a number that
      holds an integer or is infinite: up to \<open>2 ^ 53\<close> the digits of the integer\<close>
  "numberToString H x =
     (case x of
        Finite n \<Rightarrow> if \<bar>n\<bar> \<le> 2 ^ 53 then decimalText n else host_numberText H n
      | PosInfinity \<Rightarrow> ''Infinity''
      | NegInfinity \<Rightarrow> ''-Infinity'')"

definition parseInt :: "js_host \<Rightarrow> string \<Rightarrow> js_number" where
  \<comment> \<open>\<open>parseInt\<close> as \<open>parseCellId\<close> calls it: on the text of the group \<open>(\d+)\<close>, a
      non-empty run of decimal digits, read in base ten and rounded to a double\<close>
  "parseInt H ds =
     (if length (dropWhile (\<lambda>c. c = CHR ''0'') ds) \<le> 20 then toNumber (decimalNumber ds)
      else host_parseInt H ds)"

section \<open>Cell addressing (\<open>src/utils/spreadsheet.ts\<close>)\<close>

function columnToLetter_loop :: "int \<Rightarrow> string \<Rightarrow> string" where
  "columnToLetter_loop col result =
     (if col \<ge> 0
      then columnToLetter_loop (roundToDouble (quotientFloor col 26 - 1))
             (char_of (65 + col mod 26) # result)
      else result)"
  by pat_completeness auto
termination
proof (relation "measure (\<lambda>(col, result). nat (col + 1))")
  show "wf (measure (\<lambda>(col, result). nat (col + 1)))" by simp
next
  fix col :: int and result :: string
  assume "col \<ge> 0"
  then show "((roundToDouble (quotientFloor col 26 - 1), char_of (65 + col mod 26) # result),
              (col, result)) \<in> measure (\<lambda>(col, result). nat (col + 1))"
    using columnToLetter_step_less [of col] by simp
qed

declare columnToLetter_loop.simps [simp del]

definition columnToLetter :: "int \<Rightarrow> string" where
  "columnToLetter col = columnToLetter_loop col ''''"

primrec letterToColumn_loop :: "js_number \<Rightarrow> string \<Rightarrow> js_number" where
  "letterToColumn_loop result [] = result"
| "letterToColumn_loop result (ch # rest) =
     letterToColumn_loop (plusInt (times26 result) (of_char ch - 64)) rest"

definition letterToColumn :: "string \<Rightarrow> js_number" where
  "letterToColumn letter = plusInt (letterToColumn_loop (Finite 0) letter) (- 1)"

definition getCellId :: "js_host \<Rightarrow> int \<Rightarrow> int \<Rightarrow> string" where
  "getCellId H row col = columnToLetter col @ numberToString H (toNumber (row + 1))"

datatype error = InvalidCellId string

definition parseCellId :: "js_host \<Rightarrow> string \<Rightarrow> error + (js_number \<times> js_number)" where
  \<comment> \<open>\<open>/^([A-Z]+)(\d+)$/\<close>: the greedy letter group takes the whole leading run of
      capitals, and the digit group must then reach the end of the string; the result is the
      pair \<open>(row, col)\<close> of the returned object \<open>{ row, col }\<close>\<close>
  "parseCellId H cellId =
     (let letters = takeWhile isUpper cellId;
          digits = dropWhile isUpper cellId
      in if letters \<noteq> [] \<and> digits \<noteq> [] \<and> list_all isDigit digits
         then (let col = letterToColumn letters;
                   row = plusInt (parseInt H digits) (- 1)
               in Inr (row, col))
         else Inl (InvalidCellId cellId))"

subsection \<open>The loops over the mathematical integers\<close>

text \<open>
  The same loops without rounding. They state what the loops of the code compute as
  long as no result is rounded, and are used in the proofs only.
\<close>

function exactColumnLoop :: "int \<Rightarrow> string \<Rightarrow> string" where
  "exactColumnLoop col result =
     (if col \<ge> 0
      then exactColumnLoop (col div 26 - 1) (char_of (65 + col mod 26) # result)
      else result)"
  by pat_completeness auto
termination
  by (relation "measure (\<lambda>(col, result). nat (col + 1))") auto

declare exactColumnLoop.simps [simp del]

primrec exactLetterLoop :: "int \<Rightarrow> string \<Rightarrow> int" where
  "exactLetterLoop result [] = result"
| "exactLetterLoop result (ch # rest) =
     exactLetterLoop (result * 26 + (of_char ch - 64)) rest"

definition addressPattern :: "string \<Rightarrow> bool" where
  \<comment> \<open>The pattern in the words of the specification: one or more uppercase letters
      followed by one or more digits, and nothing else.\<close>
  "addressPattern s \<longleftrightarrow>
     (\<exists>n \<in> {1 ..< length s}. list_all isUpper (take n s) \<and> list_all isDigit (drop n s))"

section \<open>String built-ins\<close>

definition isWhiteSpace :: "char \<Rightarrow> bool" where
  \<comment> \<open>the white space and line terminator code units below 256: TAB, LF, VT, FF, CR,
      SP and NBSP\<close>
  "isWhiteSpace c \<longleftrightarrow> (of_char c :: nat) \<in> {9, 10, 11, 12, 13, 32, 160}"

definition trim :: "string \<Rightarrow> string" where
  "trim s = rev (dropWhile isWhiteSpace (rev (dropWhile isWhiteSpace s)))"

definition startsWith :: "string \<Rightarrow> string \<Rightarrow> bool" where
  "startsWith s pre \<longleftrightarrow> take (length pre) s = pre"

definition lowerChar :: "char \<Rightarrow> char" where
  "lowerChar c =
     (let n = (of_char c :: nat)
      in if (65 \<le> n \<and> n \<le> 90) \<or> (192 \<le> n \<and> n \<le> 222 \<and> n \<noteq> 215)
         then char_of (n + 32) else c)"

definition toLowerCase :: "string \<Rightarrow> string" where
  "toLowerCase s = map lowerChar s"

fun splitOn :: "char \<Rightarrow> string \<Rightarrow> string list" where
  "splitOn sep [] = [[]]"
| "splitOn sep (c # cs) =
     (if c = sep then [] # splitOn sep cs
      else (case splitOn sep cs of
              [] \<Rightarrow> [[c]]
            | part # parts \<Rightarrow> (c # part) # parts))"

section \<open>String-to-number conversion: \<open>isNaN(Number(value))\<close>\<close>

text \<open>
  \<open>Number\<close> applied to a string strips white space from both ends, yields \<open>0\<close> for
  the empty rest, and otherwise yields \<open>NaN\<close> exactly when the rest is not a
  \<open>StrNumericLiteral\<close> of the ECMAScript grammar. Whether the result is \<open>NaN\<close> is
  therefore decided by the text alone; the recogniser below follows that grammar.
\<close>

definition isDecimalDigits :: "string \<Rightarrow> bool" where
  "isDecimalDigits s \<longleftrightarrow> s \<noteq> [] \<and> list_all isDigit s"

definition isSignedInteger :: "string \<Rightarrow> bool" where
  "isSignedInteger s =
     (case s of
        [] \<Rightarrow> False
      | c # r \<Rightarrow> if c = CHR ''+'' \<or> c = CHR ''-'' then isDecimalDigits r
                 else isDecimalDigits s)"

definition isExponentPart :: "string \<Rightarrow> bool" where
  "isExponentPart s =
     (case s of
        [] \<Rightarrow> False
      | c # r \<Rightarrow> (c = CHR ''e'' \<or> c = CHR ''E'') \<and> isSignedInteger r)"

definition isStrUnsignedDecimalLiteral :: "string \<Rightarrow> bool" where
  \<comment> \<open>\<open>Infinity\<close>, \<open>digits . [digits] [exponent]\<close>, \<open>. digits [exponent]\<close> or
      \<open>digits [exponent]\<close>\<close>
  "isStrUnsignedDecimalLiteral s \<longleftrightarrow>
     s = ''Infinity'' \<or>
     (let ip = takeWhile isDigit s;
          r = dropWhile isDigit s
      in case r of
           [] \<Rightarrow> ip \<noteq> []
         | c # r' \<Rightarrow>
             if c = CHR ''.''
             then (let fp = takeWhile isDigit r';
                       e = dropWhile isDigit r'
                   in (ip \<noteq> [] \<or> fp \<noteq> []) \<and> (e = [] \<or> isExponentPart e))
             else ip \<noteq> [] \<and> isExponentPart r)"

definition isStrDecimalLiteral :: "string \<Rightarrow> bool" where
  "isStrDecimalLiteral s =
     (case s of
        [] \<Rightarrow> False
      | c # r \<Rightarrow> if c = CHR ''+'' \<or> c = CHR ''-'' then isStrUnsignedDecimalLiteral r
                 else isStrUnsignedDecimalLiteral s)"

definition isHexDigit :: "char \<Rightarrow> bool" where
  "isHexDigit c \<longleftrightarrow>
     isDigit c \<or> ((97::nat) \<le> of_char c \<and> of_char c \<le> (102::nat))
               \<or> ((65::nat) \<le> of_char c \<and> of_char c \<le> (70::nat))"

definition isNonDecimalIntegerLiteral :: "string \<Rightarrow> bool" where
  \<comment> \<open>\<open>0b\<close>, \<open>0o\<close> and \<open>0x\<close> literals (either case of the letter), unsigned\<close>
  "isNonDecimalIntegerLiteral s =
     (case s of
        z # x # ds \<Rightarrow>
          z = CHR ''0'' \<and> ds \<noteq> [] \<and>
          ((x \<in> {CHR ''b'', CHR ''B''} \<and> list_all (\<lambda>c. c \<in> {CHR ''0'', CHR ''1''}) ds) \<or>
           (x \<in> {CHR ''o'', CHR ''O''} \<and>
              list_all (\<lambda>c. (48::nat) \<le> of_char c \<and> of_char c \<le> (55::nat)) ds) \<or>
           (x \<in> {CHR ''x'', CHR ''X''} \<and> list_all isHexDigit ds))
      | _ \<Rightarrow> False)"

definition isStrNumericLiteral :: "string \<Rightarrow> bool" where
  "isStrNumericLiteral s \<longleftrightarrow> isStrDecimalLiteral s \<or> isNonDecimalIntegerLiteral s"

definition denotesInfinity :: "string \<Rightarrow> bool" where
  "denotesInfinity s \<longleftrightarrow> s \<in> {''Infinity'', ''+Infinity'', ''-Infinity''}"

definition finiteNumericLiteral :: "string \<Rightarrow> bool" where
  \<comment> \<open>In the words of the specification, a text that "parses fully as a finite numeric
      literal": a numeric literal that is not one of the spellings of infinity.\<close>
  "finiteNumericLiteral s \<longleftrightarrow> isStrNumericLiteral s \<and> \<not> denotesInfinity s"

definition isNaN_Number :: "string \<Rightarrow> bool" where
  \<comment> \<open>\<open>isNaN(Number(value))\<close>\<close>
  "isNaN_Number s = (let t = trim s in t \<noteq> [] \<and> \<not> isStrNumericLiteral t)"


section \<open>The fixed part of the engine: expression evaluation, \<open>parseFloat\<close>, dates\<close>

text \<open>
  \<open>evaluateFormula\<close> hands the substituted expression \<open>e\<close> to
  \<open>Function(`"use strict"; return (${e})`)()\<close> and converts the result with
  \<open>toString()\<close>, inside one \<open>try\<close> block. The outcome of that block is either the
  resulting text or a thrown exception. It is fixed, for every occasion, in these
  cases:

  \<^item> an expression written with decimal digits, \<open>+\<close>, \<open>(\<close> and \<open>)\<close> only, whose
    opening and closing parentheses differ in number, is a syntax error;
  \<^item> an expression written with ASCII letters, decimal digits and the characters
    \<open>( ) . + - :\<close> only, containing a colon, is a syntax error (a colon needs a
    conditional \<open>?\<close>, a brace, a quote or a comment to be legal);
  \<^item> a sum \<open>n1+n2+...+nk\<close> of decimal integer literals without leading zeros, with
    total below \<open>2 ^ 53\<close>, returns the decimal text of the total;
  \<^item> a quotient \<open>n/0\<close> of a positive decimal integer literal below \<open>2 ^ 53\<close> and
    the literal \<open>0\<close> returns \<open>Infinity\<close>.

  Every other expression is the host's, on the occasion of the call. The host is taken
  to finish every call; evaluation that never returns is outside the model.
\<close>

definition isAsciiLetter :: "char \<Rightarrow> bool" where
  "isAsciiLetter c \<longleftrightarrow>
     isUpper c \<or> ((97::nat) \<le> of_char c \<and> of_char c \<le> (122::nat))"

definition isIntegerLiteral :: "string \<Rightarrow> bool" where
  \<comment> \<open>\<open>0\<close>, or a non-zero digit followed by digits\<close>
  "isIntegerLiteral s \<longleftrightarrow> isDecimalDigits s \<and> (s = ''0'' \<or> hd s \<noteq> CHR ''0'')"

definition unbalancedArithmetic :: "string \<Rightarrow> bool" where
  "unbalancedArithmetic e \<longleftrightarrow>
     list_all (\<lambda>c. isDigit c \<or> c \<in> {CHR ''+'', CHR ''('', CHR '')''}) e \<and>
     count_list e (CHR ''('') \<noteq> count_list e (CHR '')'')"

definition strayColon :: "string \<Rightarrow> bool" where
  "strayColon e \<longleftrightarrow>
     CHR '':'' \<in> set e \<and>
     list_all (\<lambda>c. isAsciiLetter c \<or> isDigit c \<or>
                    c \<in> {CHR ''('', CHR '')'', CHR ''.'', CHR ''+'', CHR ''-'', CHR '':''}) e"

definition sumOfLiterals :: "string \<Rightarrow> int option" where
  "sumOfLiterals e =
     (let parts = splitOn (CHR ''+'') e
      in if list_all isIntegerLiteral parts \<and> sum_list (map decimalNumber parts) < 2 ^ 53
         then Some (sum_list (map decimalNumber parts)) else None)"

definition divisionByZero :: "string \<Rightarrow> bool" where
  "divisionByZero e =
     (case splitOn (CHR ''/'') e of
        [n, z] \<Rightarrow> z = ''0'' \<and> isIntegerLiteral n \<and> 0 < decimalNumber n \<and> decimalNumber n < 2 ^ 53
      | _ \<Rightarrow> False)"

definition fixedOutcome :: "string \<Rightarrow> js_outcome option" where
  \<comment> \<open>the outcome where it is fixed, \<open>None\<close> where it is the host's\<close>
  "fixedOutcome e =
     (if unbalancedArithmetic e \<or> strayColon e then Some Throws
      else case sumOfLiterals e of
             Some n \<Rightarrow> Some (Returns (decimalText n))
           | None \<Rightarrow> if divisionByZero e then Some (Returns ''Infinity'') else None)"

definition jsEvaluate :: "js_host \<Rightarrow> nat \<Rightarrow> string \<Rightarrow> js_outcome" where
  \<comment> \<open>the \<open>try\<close> block of \<open>evaluateFormula\<close> on the expression \<open>e\<close>, run on
      occasion \<open>t\<close>\<close>
  "jsEvaluate H t e =
     (case fixedOutcome e of
        Some outcome \<Rightarrow> outcome
      | None \<Rightarrow> host_run H t e)"

definition parseFloatText :: "js_host \<Rightarrow> string \<Rightarrow> string option" where
  \<comment> \<open>\<open>parseFloat(s)\<close>: \<open>None\<close> when the result is \<open>NaN\<close>, else the \<open>toString()\<close>
      of the result. A run of decimal digits with value below \<open>2 ^ 53\<close> parses to
      that integer; every other text is the host's.\<close>
  "parseFloatText H s =
     (if isDecimalDigits s \<and> decimalNumber s < 2 ^ 53
      then Some (decimalText (decimalNumber s))
      else host_parseFloat H s)"

definition isNumberTextChar :: "char \<Rightarrow> bool" where
  "isNumberTextChar c \<longleftrightarrow>
     isAsciiLetter c \<or> isDigit c \<or> c \<in> {CHR ''.'', CHR ''+'', CHR ''-''}"

definition numberTextHost :: "js_host \<Rightarrow> bool" where
  \<comment> \<open>The \<open>toString()\<close> of a number other than \<open>NaN\<close> is written with decimal
      digits, \<open>.\<close>, \<open>-\<close>, the exponent mark \<open>e+\<close> or \<open>e-\<close>, or is \<open>Infinity\<close> with
      an optional sign: a host's \<open>parseFloat\<close> texts stay within letters, digits and
      \<open>. + -\<close>.\<close>
  "numberTextHost H \<longleftrightarrow>
     (\<forall>s t. host_parseFloat H s = Some t \<longrightarrow> list_all isNumberTextChar t)"

definition isIsoDate :: "string \<Rightarrow> bool" where
  \<comment> \<open>\<open>/^\d{4}-\d{2}-\d{2}$/\<close>\<close>
  "isIsoDate s \<longleftrightarrow>
     length s = 10 \<and> list_all isDigit (take 4 s) \<and> s ! 4 = CHR ''-'' \<and>
     list_all isDigit (take 2 (drop 5 s)) \<and> s ! 7 = CHR ''-'' \<and>
     list_all isDigit (drop 8 s)"

definition newDate :: "js_host \<Rightarrow> string \<Rightarrow> js_date" where
  \<comment> \<open>\<open>new Date(s)\<close> on a string never throws: a text that cannot be read gives the
      invalid date. A text \<open>YYYY-MM-DD\<close> whose first number is above 31, so that it can
      only be a year, and whose month is not 01..12 is invalid, by the date-time format
      and by the parsers that engines fall back to; every other text is the host's.\<close>
  "newDate H s =
     (if isIsoDate s \<and> 31 < decimalNumber (take 4 s) \<and>
         (decimalNumber (take 2 (drop 5 s)) < 1 \<or> 12 < decimalNumber (take 2 (drop 5 s)))
      then InvalidDate else host_date H s)"

definition toLocaleDateString :: "js_date \<Rightarrow> error + string" where
  \<comment> \<open>without arguments it does not throw; on the invalid date it returns the text
      \<open>Invalid Date\<close>\<close>
  "toLocaleDateString d =
     (case d of InvalidDate \<Rightarrow> Inr ''Invalid Date'' | ValidDate text \<Rightarrow> Inr text)"

section \<open>Cells (\<open>src/types/spreadsheet.ts\<close>)\<close>

datatype cell_type = Text | Number | Formula | Date | Boolean

datatype font_weight = Normal | Bold

datatype text_align = AlignLeft | AlignCenter | AlignRight

record cell_style =
  backgroundColor :: "string option"
  textColor :: "string option"
  fontWeight :: "font_weight option"
  textAlign :: "text_align option"
  fontSize :: "int option"

text \<open>The fields of \<open>Cell\<close>, each prefixed with \<open>cell_\<close>; an optional field is an \<open>option\<close>.\<close>

record cell =
  cell_id :: string
  cell_row :: int
  cell_col :: int
  cell_value :: string
  cell_formula :: "string option"
  cell_type :: cell_type
  cell_style :: "cell_style option"

record formula_result =
  result_formula :: string
  result_explanation :: string
  result_confidence :: int

section \<open>Type detection, formatting and formula evaluation (\<open>src/utils/spreadsheet.ts\<close>)\<close>

definition isSlashDate :: "string \<Rightarrow> bool" where
  \<comment> \<open>\<open>/^\d{1,2}\/\d{1,2}\/\d{4}$/\<close>\<close>
  "isSlashDate s =
     (case splitOn (CHR ''/'') s of
        [m, d, y] \<Rightarrow>
          list_all isDigit m \<and> length m \<in> {1, 2} \<and>
          list_all isDigit d \<and> length d \<in> {1, 2} \<and>
          list_all isDigit y \<and> length y = 4
      | _ \<Rightarrow> False)"

definition dateRegex :: "string \<Rightarrow> bool" where
  "dateRegex s \<longleftrightarrow> isSlashDate s \<or> isIsoDate s"

definition detectCellType :: "string \<Rightarrow> cell_type" where
  "detectCellType value =
     (if value = [] \<or> trim value = [] then Text
      else if startsWith value ''='' then Formula
      else if \<not> isNaN_Number value \<and> trim value \<noteq> [] then Number
      else if dateRegex value then Date
      else if toLowerCase value = ''true'' \<or> toLowerCase value = ''false'' then Boolean
      else Text)"

definition formatCellValue :: "js_host \<Rightarrow> cell \<Rightarrow> string" where
  "formatCellValue H cell =
     (if cell_value cell = [] then []
      else case cell_type cell of
             Number \<Rightarrow>
               (case parseFloatText H (cell_value cell) of
                  None \<Rightarrow> cell_value cell
                | Some num \<Rightarrow> host_locale H (cell_value cell))
           | Date \<Rightarrow>
               (case toLocaleDateString (newDate H (cell_value cell)) of
                  Inr text \<Rightarrow> text
                | Inl err \<Rightarrow> cell_value cell)
           | Boolean \<Rightarrow>
               (if toLowerCase (cell_value cell) = ''true'' then ''TRUE'' else ''FALSE'')
           | Formula \<Rightarrow> cell_value cell
           | Text \<Rightarrow> cell_value cell)"

definition matchRef :: "string \<Rightarrow> (string \<times> string) option" where
  \<comment> \<open>one attempt of \<open>/[A-Z]+\d+/\<close> at the start of \<open>s\<close>: the greedy run of capitals
      must be followed by a digit (a shorter run would be followed by a capital); the
      match then takes the whole run of digits. Returns the match and the rest.\<close>
  "matchRef s =
     (let letters = takeWhile isUpper s;
          digits = takeWhile isDigit (dropWhile isUpper s)
      in if letters \<noteq> [] \<and> digits \<noteq> []
         then Some (letters @ digits, dropWhile isDigit (dropWhile isUpper s))
         else None)"

lemma matchRef_shorter: "matchRef s = Some (m, rest) \<Longrightarrow> length rest < length s"
proof -
  assume a: "matchRef s = Some (m, rest)"
  then have r: "rest = dropWhile isDigit (dropWhile isUpper s)" and l: "takeWhile isUpper s \<noteq> []"
    by (auto simp: matchRef_def Let_def split: if_splits)
  have "length (dropWhile isDigit (dropWhile isUpper s)) \<le> length (dropWhile isUpper s)"
    by (rule length_dropWhile_le)
  moreover have "length (takeWhile isUpper s) + length (dropWhile isUpper s) = length s"
    by (metis length_append takeWhile_dropWhile_id)
  moreover have "0 < length (takeWhile isUpper s)" using l by simp
  ultimately show ?thesis unfolding r by linarith
qed

function replaceRefs :: "(string \<Rightarrow> string) \<Rightarrow> string \<Rightarrow> string" where
  "replaceRefs f [] = []"
| "replaceRefs f (c # cs) =
     (case matchRef (c # cs) of
        Some (m, rest) \<Rightarrow> f m @ replaceRefs f rest
      | None \<Rightarrow> c # replaceRefs f cs)"
  by pat_completeness auto
termination
  by (relation "measure (\<lambda>(f, s). length s)") (auto dest: matchRef_shorter)

function cellRefs :: "string \<Rightarrow> string list" where
  "cellRefs [] = []"
| "cellRefs (c # cs) =
     (case matchRef (c # cs) of
        Some (m, rest) \<Rightarrow> m # cellRefs rest
      | None \<Rightarrow> cellRefs cs)"
  by pat_completeness auto
termination
  by (relation "measure length") (auto dest: matchRef_shorter)

definition cellRefText :: "js_host \<Rightarrow> (string \<rightharpoonup> cell) \<Rightarrow> string \<Rightarrow> string" where
  \<comment> \<open>the replacement callback of \<open>evaluateFormula\<close>\<close>
  "cellRefText H cells match =
     (case cells match of
        None \<Rightarrow> ''0''
      | Some cell \<Rightarrow>
          if cell_value cell = [] then ''0''
          else (case parseFloatText H (cell_value cell) of
                  None \<Rightarrow> ''0''
                | Some numValue \<Rightarrow> numValue))"

definition evaluateFormula ::
  "js_host \<Rightarrow> nat \<Rightarrow> string \<Rightarrow> (string \<rightharpoonup> cell) \<Rightarrow> string" where
  \<comment> \<open>called on occasion \<open>t\<close>\<close>
  "evaluateFormula H t formula cells =
     (if \<not> startsWith formula ''='' then formula
      else let expression = replaceRefs (cellRefText H cells) (drop 1 formula)
           in case jsEvaluate H t expression of
                Returns result \<Rightarrow> result
              | Throws \<Rightarrow> ''#ERROR'')"


section \<open>The cell store and its update (the application component)\<close>

text \<open>
  The application holds the cell collection, the selected cell and the toasts it has
  shown. \<open>handleCellValueChange\<close> reads the collection of the current render and
  replaces the entry of the address through \<open>setCells\<close>; the callback is rebuilt
  whenever the collection changes, so both are the collection of the state.
\<close>

record toast =
  toast_title :: string
  toast_description :: string
  toast_duration :: int

record app_state =
  cells :: "string \<rightharpoonup> cell"
  selectedCell :: "(int \<times> int) option"
  toasts :: "toast list"

definition handleCellValueChange ::
  "js_host \<Rightarrow> nat \<Rightarrow> int \<Rightarrow> int \<Rightarrow> string \<Rightarrow> app_state \<Rightarrow> app_state" where
  \<comment> \<open>called on occasion \<open>t\<close>\<close>
  "handleCellValueChange H t row col value st =
     (let cellId = getCellId H row col;
          type = detectCellType value;
          processedValue = (if type = Formula then evaluateFormula H t value (cells st)
                            else value);
          newCell = \<lparr>cell_id = cellId, cell_row = row, cell_col = col,
                     cell_value = processedValue,
                     cell_formula = (if type = Formula then Some value else None),
                     cell_type = type, cell_style = None\<rparr>
      in st\<lparr>cells := (cells st)(cellId \<mapsto> newCell),
            toasts := toasts st @
              [\<lparr>toast_title = ''Cell Updated'',
                toast_description = cellId @ '' = '' @ processedValue,
                toast_duration = 2000\<rparr>]\<rparr>)"

definition handleFormulaGenerated ::
  "js_host \<Rightarrow> nat \<Rightarrow> formula_result \<Rightarrow> app_state \<Rightarrow> app_state" where
  "handleFormulaGenerated H t result st =
     (case selectedCell st of
        None \<Rightarrow> st
      | Some (row, col) \<Rightarrow>
          (let st' = handleCellValueChange H t row col (result_formula result) st
           in st'\<lparr>toasts := toasts st' @
                [\<lparr>toast_title = ''AI Formula Applied'',
                  toast_description = result_explanation result,
                  toast_duration = 4000\<rparr>]\<rparr>))"

definition fallbackFormulaResult :: formula_result where
  \<comment> \<open>what \<open>handleSubmit\<close> of the AI command bar passes on when the AI request fails\<close>
  "fallbackFormulaResult =
     \<lparr>result_formula = ''=SUM(A1:A10)'',
      result_explanation = ''Default sum formula (AI service unavailable)'',
      result_confidence = 50\<rparr>"

definition basicHost :: js_host where
  \<comment> \<open>a host for concrete evaluations that stay inside the fixed part of the engine:
      outside it, scripts throw, \<open>parseFloat\<close> gives \<open>NaN\<close> and dates are invalid\<close>
  "basicHost =
     \<lparr>host_run = (\<lambda>t e. Throws), host_parseFloat = (\<lambda>s. None),
      host_locale = (\<lambda>s. s), host_date = (\<lambda>s. InvalidDate),
      host_numberText = decimalText, host_parseInt = (\<lambda>ds. toNumber (decimalNumber ds))\<rparr>"

definition clockHost :: js_host where
  \<comment> \<open>as \<open>basicHost\<close>, with a clock: the script \<open>Date.now()\<close> returns the number
      of the occasion\<close>
  "clockHost =
     basicHost\<lparr>host_run :=
       (\<lambda>t e. if e = ''Date.now()'' then Returns (decimalText (int t)) else Throws)\<rparr>"

definition emptyState :: app_state where
  "emptyState = \<lparr>cells = Map.empty, selectedCell = None, toasts = []\<rparr>"


section \<open>Properties of cell addressing\<close>

lemma exactLetterLoop_shift:
  "exactLetterLoop r xs = r * 26 ^ length xs + exactLetterLoop 0 xs"
proof (induction xs arbitrary: r)
  case Nil
  show ?case by simp
next
  case (Cons x xs)
  define d :: int where "d = of_char x - 64"
  have "exactLetterLoop r (x # xs) = (r * 26 + d) * 26 ^ length xs + exactLetterLoop 0 xs"
    using Cons.IH [of "r * 26 + d"] by (simp add: d_def)
  moreover have "exactLetterLoop 0 (x # xs) = d * 26 ^ length xs + exactLetterLoop 0 xs"
    using Cons.IH [of d] by (simp add: d_def)
  ultimately show ?case by (simp add: algebra_simps)
qed

lemma of_char_letter: "0 \<le> c \<Longrightarrow> of_char (char_of (65 + c mod 26 :: int)) = (65 + c mod 26 :: int)"
proof -
  assume "0 \<le> c"
  have "0 \<le> c mod 26" "c mod 26 < 26" by simp_all
  then have "(65 + c mod 26) mod 256 = 65 + c mod 26" by simp
  then show ?thesis by simp
qed

lemma exact_loop_value:
  "- 1 \<le> c \<Longrightarrow>
   exactLetterLoop 0 (exactColumnLoop c acc) =
     (c + 1) * 26 ^ length acc + exactLetterLoop 0 acc"
proof (induction c acc rule: exactColumnLoop.induct)
  case (1 c acc)
  show ?case
  proof (cases "c \<ge> 0")
    case True
    have step: "exactColumnLoop c acc =
        exactColumnLoop (c div 26 - 1) (char_of (65 + c mod 26) # acc)"
      using True by (subst exactColumnLoop.simps) simp
    have ge: "- 1 \<le> c div 26 - 1" using True by simp
    define q where "q = c div 26"
    define m where "m = c mod 26"
    have split: "c = 26 * q + m" by (simp add: q_def m_def)
    have hd: "exactLetterLoop 0 (char_of (65 + c mod 26) # acc)
        = (c mod 26 + 1) * 26 ^ length acc + exactLetterLoop 0 acc"
      using of_char_letter [OF True]
      by (simp add: exactLetterLoop_shift [of "1 + c mod 26"] add.commute)
    have "exactLetterLoop 0 (exactColumnLoop c acc)
        = q * 26 ^ Suc (length acc)
          + ((m + 1) * 26 ^ length acc + exactLetterLoop 0 acc)"
      using "1.IH" [OF True ge] by (simp only: step hd q_def m_def) simp
    also have "\<dots> = (26 * q + m + 1) * 26 ^ length acc + exactLetterLoop 0 acc"
      by (simp add: algebra_simps)
    finally show ?thesis by (simp only: split)
  next
    case False
    with "1.prems" have "c = - 1" by simp
    then show ?thesis by (subst exactColumnLoop.simps) simp
  qed
qed

lemma isUpper_letter: "0 \<le> c \<Longrightarrow> isUpper (char_of (65 + c mod 26 :: int))"
proof -
  assume c: "0 \<le> c"
  have b: "0 \<le> c mod 26" "c mod 26 < 26" by simp_all
  have "(of_char (char_of (65 + c mod 26 :: int)) :: int) = 65 + c mod 26"
    by (rule of_char_letter [OF c])
  moreover have "int (of_char (char_of (65 + c mod 26 :: int)) :: nat) = (of_char (char_of (65 + c mod 26 :: int)) :: int)"
    by (simp add: of_char_def)
  ultimately have "int (of_char (char_of (65 + c mod 26 :: int)) :: nat) = 65 + c mod 26" by simp
  with b show ?thesis unfolding isUpper_def by linarith
qed

lemma loop_upper: "list_all isUpper acc \<Longrightarrow> list_all isUpper (columnToLetter_loop c acc)"
proof (induction c acc rule: columnToLetter_loop.induct)
  case (1 c acc)
  show ?case
  proof (cases "c \<ge> 0")
    case True
    then show ?thesis
      using "1.IH" [OF True] "1.prems" isUpper_letter [OF True]
      by (subst columnToLetter_loop.simps) simp
  next
    case False
    then show ?thesis using "1.prems" by (subst columnToLetter_loop.simps) simp
  qed
qed

lemma loop_length: "length acc \<le> length (columnToLetter_loop c acc)"
proof (induction c acc rule: columnToLetter_loop.induct)
  case (1 c acc)
  show ?case
  proof (cases "c \<ge> 0")
    case True
    then show ?thesis
      using "1.IH" [OF True] by (subst columnToLetter_loop.simps) simp
  next
    case False
    then show ?thesis by (subst columnToLetter_loop.simps) simp
  qed
qed

lemma columnToLetter_upper: "list_all isUpper (columnToLetter c)"
  by (simp add: columnToLetter_def loop_upper)

lemma columnToLetter_nonempty: "0 \<le> c \<Longrightarrow> columnToLetter c \<noteq> []"
proof -
  assume c: "0 \<le> c"
  have "columnToLetter c = columnToLetter_loop (roundToDouble (quotientFloor c 26 - 1)) [char_of (65 + c mod 26)]"
    using c unfolding columnToLetter_def by (subst columnToLetter_loop.simps) simp
  moreover have "length [char_of (65 + c mod 26) :: char] \<le> length (columnToLetter_loop (roundToDouble (quotientFloor c 26 - 1)) [char_of (65 + c mod 26)])"
    by (rule loop_length)
  ultimately show ?thesis by auto
qed

lemma of_char_nat_int: "int (of_char ch :: nat) = (of_char ch :: int)"
  by (simp add: of_char_def)

lemma digit_char:
  assumes "0 \<le> n" "n < 10"
  shows "isDigit (char_of (48 + n :: int)) \<and> (of_char (char_of (48 + n :: int)) :: int) = 48 + n"
proof -
  have m: "(48 + n) mod 256 = 48 + n" using assms by simp
  have b: "(of_char (char_of (48 + n :: int)) :: int) = 48 + n" by (simp add: m)
  have "int (of_char (char_of (48 + n :: int)) :: nat) = 48 + n"
    using b by (simp only: of_char_nat_int)
  then show ?thesis using b assms unfolding isDigit_def by linarith
qed

lemma digitsOf_nonempty: "digitsOf n \<noteq> []"
  by (subst digitsOf.simps) simp

lemma digitsOf_digits: "0 \<le> n \<Longrightarrow> list_all isDigit (digitsOf n)"
proof (induction n rule: digitsOf.induct)
  case (1 n)
  show ?case
  proof (cases "n < 10")
    case True
    then show ?thesis using digit_char [of n] "1.prems" by (subst digitsOf.simps) simp
  next
    case False
    have "0 \<le> n mod 10" "n mod 10 < 10" by simp_all
    then have "isDigit (char_of (48 + n mod 10))" using digit_char [of "n mod 10"] by blast
    moreover have "0 \<le> n div 10" using "1.prems" by simp
    ultimately show ?thesis using False "1.IH" by (subst digitsOf.simps) simp
  qed
qed

lemma digitsOf_length: "n < 10 ^ k \<Longrightarrow> 0 < k \<Longrightarrow> length (digitsOf n) \<le> k"
proof (induction n arbitrary: k rule: digitsOf.induct)
  case (1 n)
  show ?case
  proof (cases "n < 10")
    case True
    then show ?thesis using "1.prems" by (subst digitsOf.simps) simp
  next
    case False
    obtain j where k: "k = Suc j" using "1.prems"(2) by (cases k) auto
    have "0 < j" using False "1.prems"(1) unfolding k by (cases j) auto
    moreover have "n div 10 < 10 ^ j" using "1.prems"(1) unfolding k by simp
    ultimately have "length (digitsOf (n div 10)) \<le> j" using "1.IH" False by simp
    then show ?thesis using False unfolding k by (subst digitsOf.simps) simp
  qed
qed

lemma decimalValue_snoc:
  "decimalValue acc (xs @ [ch]) = decimalValue acc xs * 10 + (of_char ch - 48)"
  by (induction xs arbitrary: acc) simp_all

lemma decimalNumber_digitsOf: "0 \<le> n \<Longrightarrow> decimalNumber (digitsOf n) = n"
proof (induction n rule: digitsOf.induct)
  case (1 n)
  show ?case
  proof (cases "n < 10")
    case True
    then show ?thesis using digit_char [of n] "1.prems"
      by (subst digitsOf.simps) (simp add: decimalNumber_def)
  next
    case False
    have lt: "0 \<le> n mod 10" "n mod 10 < 10" by simp_all
    have "0 \<le> n div 10" using "1.prems" by simp
    then have ih: "decimalValue 0 (digitsOf (n div 10)) = n div 10"
      using "1.IH" False by (simp add: decimalNumber_def)
    have "decimalNumber (digitsOf n) = (n div 10) * 10 + n mod 10"
      using False digit_char [OF lt]
      by (subst digitsOf.simps) (simp add: decimalNumber_def decimalValue_snoc ih)
    also have "\<dots> = n" by simp
    finally show ?thesis .
  qed
qed

text \<open>Up to \<open>2 ^ 53\<close> nothing is rounded, and the loops of the code are the exact loops.\<close>

lemma toNumber_exact: "\<bar>n\<bar> \<le> 2 ^ 53 \<Longrightarrow> toNumber n = Finite n"
proof -
  assume a: "\<bar>n\<bar> \<le> 2 ^ 53"
  have b: "(2::int) ^ 53 < 2 ^ 1024" by (intro power_strict_increasing) simp_all
  have r: "roundToDouble n = n" by (rule roundToDouble_exact [OF a])
  have c: "\<not> (2 ^ 1024 \<le> n)" "\<not> (n \<le> - (2 ^ 1024))" using a b by linarith+
  show ?thesis unfolding toNumber_def Let_def r using c by (simp only: if_False)
qed

lemma columnToLetter_loop_exact:
  "c < 2 ^ 53 \<Longrightarrow> columnToLetter_loop c acc = exactColumnLoop c acc"
proof (induction c acc rule: exactColumnLoop.induct)
  case (1 c acc)
  show ?case
  proof (cases "c \<ge> 0")
    case True
    have q: "quotientFloor c 26 = c div 26"
      by (rule quotientFloor_exact [OF True "1.prems"])
    have nn: "0 \<le> c div 26" using True by (simp add: pos_imp_zdiv_nonneg_iff)
    have le: "c div 26 \<le> c" using int_div_bounds(1) [of 26 c] nn by linarith
    have small: "c div 26 - 1 < 2 ^ 53" using le "1.prems" by linarith
    have "(1::int) < 2 ^ 53" by simp
    then have "\<bar>c div 26 - 1\<bar> < 2 ^ 53" using small nn by linarith
    then have r: "roundToDouble (c div 26 - 1) = c div 26 - 1" by (rule roundToDouble_small)
    show ?thesis
      using True "1.IH" [OF True small]
      by (subst columnToLetter_loop.simps, subst exactColumnLoop.simps) (simp add: q r)
  next
    case False
    then show ?thesis
      by (subst columnToLetter_loop.simps, subst exactColumnLoop.simps) simp
  qed
qed

lemma upper_code: "isUpper ch \<Longrightarrow> 1 \<le> (of_char ch :: int) - 64 \<and> (of_char ch :: int) - 64 \<le> 26"
proof -
  assume "isUpper ch"
  then have "65 \<le> int (of_char ch :: nat)" "int (of_char ch :: nat) \<le> 90"
    by (simp_all add: isUpper_def)
  then show ?thesis by (simp add: of_char_nat_int)
qed

lemma exactLetterLoop_grows:
  "list_all isUpper xs \<Longrightarrow> 0 \<le> r \<Longrightarrow> r \<le> exactLetterLoop r xs"
proof (induction xs arbitrary: r)
  case Nil
  show ?case by simp
next
  case (Cons ch xs)
  have d: "1 \<le> (of_char ch :: int) - 64" using Cons.prems(1) upper_code [of ch] by simp
  have "r \<le> r * 26 + (of_char ch - 64)" using d Cons.prems(2) by linarith
  moreover have "r * 26 + (of_char ch - 64) \<le> exactLetterLoop (r * 26 + (of_char ch - 64)) xs"
    using Cons.IH [of "r * 26 + (of_char ch - 64)"] Cons.prems d by simp
  ultimately show ?case by simp
qed

lemma letterToColumn_loop_exact:
  "list_all isUpper xs \<Longrightarrow> 0 \<le> r \<Longrightarrow> exactLetterLoop r xs \<le> 2 ^ 53 \<Longrightarrow>
   letterToColumn_loop (Finite r) xs = Finite (exactLetterLoop r xs)"
proof (induction xs arbitrary: r)
  case Nil
  show ?case by simp
next
  case (Cons ch xs)
  define d :: int where "d = of_char ch - 64"
  have d: "1 \<le> d" "d \<le> 26" using Cons.prems(1) upper_code [of ch] by (simp_all add: d_def)
  have up: "list_all isUpper xs" using Cons.prems(1) by simp
  have nonneg: "0 \<le> r * 26 + d" using d Cons.prems(2) by simp
  have "r * 26 + d \<le> exactLetterLoop (r * 26 + d) xs"
    by (rule exactLetterLoop_grows [OF up nonneg])
  then have b: "r * 26 + d \<le> 2 ^ 53" using Cons.prems(3) by (simp add: d_def)
  then have b26: "\<bar>r * 26\<bar> \<le> 2 ^ 53" "\<bar>r * 26 + d\<bar> \<le> 2 ^ 53"
    using d Cons.prems(2) by simp_all
  have step: "plusInt (times26 (Finite r)) d = Finite (r * 26 + d)"
    by (simp add: times26_def plusInt_def toNumber_exact [OF b26(1)] toNumber_exact [OF b26(2)])
  have "letterToColumn_loop (Finite (r * 26 + d)) xs = Finite (exactLetterLoop (r * 26 + d) xs)"
    using Cons.IH [OF up nonneg] Cons.prems(3) by (simp add: d_def)
  then show ?case using step by (simp add: d_def)
qed

lemma letterToColumn_columnToLetter:
  assumes "0 \<le> c" "c < 2 ^ 53"
  shows "letterToColumn (columnToLetter c) = Finite c"
proof -
  have e: "columnToLetter c = exactColumnLoop c []"
    by (simp add: columnToLetter_def columnToLetter_loop_exact [OF assms(2)])
  have v: "exactLetterLoop 0 (columnToLetter c) = c + 1"
    using exact_loop_value [of c "[]"] assms(1) by (simp add: e)
  have "letterToColumn_loop (Finite 0) (columnToLetter c) = Finite (c + 1)"
    using letterToColumn_loop_exact [OF columnToLetter_upper [of c], of 0] v assms(2) by simp
  moreover have "toNumber c = Finite c" using assms by (intro toNumber_exact) simp
  ultimately show ?thesis by (simp add: letterToColumn_def plusInt_def)
qed

lemma digit_not_upper: "isDigit ch \<Longrightarrow> \<not> isUpper ch"
  by (simp add: isDigit_def isUpper_def)

lemma upper_not_digit: "isUpper ch \<Longrightarrow> \<not> isDigit ch"
  by (simp add: isDigit_def isUpper_def)

lemma takeWhile_upper_run:
  "list_all isUpper ls \<Longrightarrow> rest = [] \<or> \<not> isUpper (hd rest) \<Longrightarrow>
   takeWhile isUpper (ls @ rest) = ls \<and> dropWhile isUpper (ls @ rest) = rest"
proof (induction ls)
  case Nil
  then show ?case by (cases rest) auto
next
  case (Cons a ls)
  then show ?case by simp
qed

lemma takeWhile_digit_run:
  "list_all isDigit ds \<Longrightarrow> rest = [] \<or> \<not> isDigit (hd rest) \<Longrightarrow>
   takeWhile isDigit (ds @ rest) = ds \<and> dropWhile isDigit (ds @ rest) = rest"
proof (induction ds)
  case Nil
  then show ?case by (cases rest) auto
next
  case (Cons a ds)
  then show ?case by simp
qed

lemma letters_digits_split:
  assumes "list_all isUpper ls" "list_all isDigit ds" "ds \<noteq> []"
  shows "takeWhile isUpper (ls @ ds) = ls" "dropWhile isUpper (ls @ ds) = ds"
proof -
  have "\<not> isUpper (hd ds)" using assms(2,3) by (cases ds) (auto dest: digit_not_upper)
  then show "takeWhile isUpper (ls @ ds) = ls" "dropWhile isUpper (ls @ ds) = ds"
    using takeWhile_upper_run [OF assms(1), of ds] by simp_all
qed

lemma list_all_takeWhile: "list_all P (takeWhile P xs)"
  by (induction xs) simp_all

lemma length_takeWhile_dropWhile: "length (takeWhile P xs) + length (dropWhile P xs) = length xs"
  by (induction xs) simp_all

lemma addressPattern_split:
  "addressPattern s \<longleftrightarrow>
     takeWhile isUpper s \<noteq> [] \<and> dropWhile isUpper s \<noteq> [] \<and> list_all isDigit (dropWhile isUpper s)"
proof
  assume "addressPattern s"
  then obtain n where n: "1 \<le> n" "n < length s"
      and u: "list_all isUpper (take n s)" and d: "list_all isDigit (drop n s)"
    unfolding addressPattern_def by auto
  have ne: "drop n s \<noteq> []" "take n s \<noteq> []" using n by auto
  have "takeWhile isUpper (take n s @ drop n s) = take n s"
       "dropWhile isUpper (take n s @ drop n s) = drop n s"
    using letters_digits_split [OF u d ne(1)] by simp_all
  then have "takeWhile isUpper s = take n s" "dropWhile isUpper s = drop n s"
    by simp_all
  then show "takeWhile isUpper s \<noteq> [] \<and> dropWhile isUpper s \<noteq> [] \<and> list_all isDigit (dropWhile isUpper s)"
    using ne d by simp
next
  assume a: "takeWhile isUpper s \<noteq> [] \<and> dropWhile isUpper s \<noteq> [] \<and> list_all isDigit (dropWhile isUpper s)"
  define n where "n = length (takeWhile isUpper s)"
  have t: "take n s = takeWhile isUpper s" "drop n s = dropWhile isUpper s"
    unfolding n_def
    by (rule takeWhile_eq_take [symmetric], rule dropWhile_eq_drop [symmetric])
  have len: "n + length (dropWhile isUpper s) = length s"
    unfolding n_def by (rule length_takeWhile_dropWhile)
  have "takeWhile isUpper s \<noteq> []" "dropWhile isUpper s \<noteq> []" using a by blast+
  then have "0 < n" "0 < length (dropWhile isUpper s)"
    unfolding n_def by (simp_all only: length_greater_0_conv not_False_eq_True)
  then have "1 \<le> n \<and> n < length s" using len by linarith
  then have "n \<in> {1 ..< length s}" by simp
  moreover have "list_all isUpper (take n s)"
    unfolding t by (rule list_all_takeWhile)
  moreover have "list_all isDigit (drop n s)" using a t by simp
  ultimately show "addressPattern s" unfolding addressPattern_def by blast
qed

lemma parseCellId_letters_digits:
  assumes "list_all isUpper ls" "ls \<noteq> []" "list_all isDigit ds" "ds \<noteq> []"
  shows "parseCellId H (ls @ ds) = Inr (plusInt (parseInt H ds) (- 1), letterToColumn ls)"
  using assms letters_digits_split [OF assms(1,3,4)]
  by (simp add: parseCellId_def Let_def)

lemma parseInt_digitsOf:
  assumes "0 \<le> n" "n \<le> 2 ^ 53"
  shows "parseInt H (digitsOf n) = Finite n"
proof -
  have "(2::int) ^ 53 < 10 ^ 20" by simp
  then have "n < 10 ^ 20" using assms(2) by linarith
  then have "length (digitsOf n) \<le> 20" by (rule digitsOf_length) simp
  moreover have "length (dropWhile (\<lambda>c. c = CHR ''0'') (digitsOf n)) \<le> length (digitsOf n)"
    by (rule length_dropWhile_le)
  ultimately have "length (dropWhile (\<lambda>c. c = CHR ''0'') (digitsOf n)) \<le> 20" by linarith
  moreover have "toNumber n = Finite n" using assms by (intro toNumber_exact) simp
  ultimately show ?thesis
    using assms(1) by (simp add: parseInt_def decimalNumber_digitsOf)
qed

lemma getCellId_exact:
  assumes "0 \<le> r" "r < 2 ^ 53"
  shows "getCellId H r c = columnToLetter c @ digitsOf (r + 1)"
proof -
  have "toNumber (r + 1) = Finite (r + 1)" using assms by (intro toNumber_exact) simp
  then show ?thesis using assms by (simp add: getCellId_def numberToString_def decimalText_def)
qed

lemma parseCellId_getCellId:
  assumes "0 \<le> r" "r < 2 ^ 53" "0 \<le> c" "c < 2 ^ 53"
  shows "parseCellId H (getCellId H r c) = Inr (Finite r, Finite c)"
proof -
  have r1: "0 \<le> r + 1" "r + 1 \<le> 2 ^ 53" using assms(1,2) by simp_all
  have "parseCellId H (columnToLetter c @ digitsOf (r + 1))
      = Inr (plusInt (parseInt H (digitsOf (r + 1))) (- 1), letterToColumn (columnToLetter c))"
    by (rule parseCellId_letters_digits
          [OF columnToLetter_upper columnToLetter_nonempty [OF assms(3)]
              digitsOf_digits [OF r1(1)] digitsOf_nonempty])
  moreover have "toNumber r = Finite r" using assms(1,2) by (intro toNumber_exact) simp
  ultimately show ?thesis
    by (simp add: getCellId_exact [OF assms(1,2)] parseInt_digitsOf [OF r1]
        letterToColumn_columnToLetter [OF assms(3,4)] plusInt_def)
qed

lemma parseCellId_pattern:
  "parseCellId H s =
     (if addressPattern s
      then Inr (plusInt (parseInt H (dropWhile isUpper s)) (- 1),
                letterToColumn (takeWhile isUpper s))
      else Inl (InvalidCellId s))"
  by (simp add: parseCellId_def Let_def addressPattern_split)

section \<open>Properties of type detection\<close>

lemma equals_not_space: "\<not> isWhiteSpace (CHR ''='')"
  by (simp add: isWhiteSpace_def)

lemma trim_Nil: "trim [] = []"
  by (simp add: trim_def)

lemma trim_equals: "trim (CHR ''='' # r) = CHR ''='' # rev (dropWhile isWhiteSpace (rev r))"
  by (simp add: trim_def equals_not_space dropWhile_append3)

lemma startsWith_equals: "startsWith s ''='' \<longleftrightarrow> (\<exists>r. s = CHR ''='' # r)"
  by (cases s) (auto simp: startsWith_def)

lemma equals_not_numeric: "\<not> isStrNumericLiteral (CHR ''='' # r)"
  by (simp add: isStrNumericLiteral_def isStrDecimalLiteral_def isStrUnsignedDecimalLiteral_def
      isNonDecimalIntegerLiteral_def isDigit_def split: list.splits)

lemma detectCellType_Formula: "detectCellType v = Formula \<longleftrightarrow> startsWith v ''=''"
proof (cases "startsWith v ''=''")
  case True
  then obtain r where v: "v = CHR ''='' # r" by (auto simp: startsWith_equals)
  show ?thesis using True by (simp add: detectCellType_def v trim_equals)
next
  case False
  then show ?thesis by (simp add: detectCellType_def)
qed

lemma detectCellType_Number:
  "detectCellType v = Number \<longleftrightarrow> trim v \<noteq> [] \<and> isStrNumericLiteral (trim v)"
proof (cases "startsWith v ''=''")
  case True
  then obtain r where v: "v = CHR ''='' # r" by (auto simp: startsWith_equals)
  have "detectCellType v = Formula" using True by (simp add: detectCellType_Formula)
  moreover have "\<not> isStrNumericLiteral (trim v)" by (simp add: v trim_equals equals_not_numeric)
  ultimately show ?thesis by simp
next
  case False
  then show ?thesis
    by (auto simp: detectCellType_def isNaN_Number_def Let_def trim_Nil)
qed

section \<open>Properties of reference substitution\<close>

lemma matchRef_Some_append: "matchRef s = Some (m, r) \<Longrightarrow> s = m @ r"
proof -
  assume a: "matchRef s = Some (m, r)"
  then have m: "m = takeWhile isUpper s @ takeWhile isDigit (dropWhile isUpper s)"
    and r: "r = dropWhile isDigit (dropWhile isUpper s)"
    by (auto simp: matchRef_def Let_def split: if_splits)
  show ?thesis unfolding m r by simp
qed

lemma while_append_boundary:
  "rest = [] \<or> \<not> P (hd rest) \<Longrightarrow>
   takeWhile P (d @ rest) = takeWhile P d \<and> dropWhile P (d @ rest) = dropWhile P d @ rest"
proof (induction d)
  case Nil
  then show ?case by (cases rest) auto
next
  case (Cons a d)
  then show ?case by simp
qed

lemma matchRef_append:
  assumes "s \<noteq> []" "\<not> isUpper (last s)" "rest = [] \<or> \<not> isDigit (hd rest)"
  shows "matchRef (s @ rest) =
           (case matchRef s of None \<Rightarrow> None | Some (m, r) \<Rightarrow> Some (m, r @ rest))"
proof -
  have mem: "last s \<in> set s" using assms(1) by simp
  have t: "takeWhile isUpper (s @ rest) = takeWhile isUpper s"
    using takeWhile_append1 [of "last s" s isUpper rest] mem assms(2) by simp
  have d: "dropWhile isUpper (s @ rest) = dropWhile isUpper s @ rest"
    using dropWhile_append1 [of "last s" s isUpper rest] mem assms(2) by simp
  have w: "takeWhile isDigit (dropWhile isUpper s @ rest) = takeWhile isDigit (dropWhile isUpper s)"
      "dropWhile isDigit (dropWhile isUpper s @ rest) = dropWhile isDigit (dropWhile isUpper s) @ rest"
    using while_append_boundary [of rest isDigit "dropWhile isUpper s"] assms(3) by simp_all
  show ?thesis by (simp add: matchRef_def Let_def t d w)
qed

lemma replaceRefs_append:
  "pre = [] \<or> \<not> isUpper (last pre) \<Longrightarrow> rest = [] \<or> \<not> isDigit (hd rest) \<Longrightarrow>
   replaceRefs f (pre @ rest) = replaceRefs f pre @ replaceRefs f rest"
proof (induction pre rule: cellRefs.induct)
  case 1
  show ?case by simp
next
  case (2 c cs)
  have nu: "\<not> isUpper (last (c # cs))" using "2.prems"(1) by simp
  have ma: "matchRef ((c # cs) @ rest) =
      (case matchRef (c # cs) of None \<Rightarrow> None | Some (m, r) \<Rightarrow> Some (m, r @ rest))"
    by (rule matchRef_append [OF _ nu "2.prems"(2)]) simp
  show ?case
  proof (cases "matchRef (c # cs)")
    case None
    have cs: "cs = [] \<or> \<not> isUpper (last cs)" using nu by (cases cs) auto
    have ih: "replaceRefs f (cs @ rest) = replaceRefs f cs @ replaceRefs f rest"
      by (rule "2.IH"(1) [OF None cs "2.prems"(2)])
    have "matchRef (c # cs @ rest) = None" using ma None by simp
    then show ?thesis using None ih by simp
  next
    case (Some p)
    obtain m r where p: "p = (m, r)" by (cases p)
    have eq: "c # cs = m @ r" using Some p by (simp add: matchRef_Some_append)
    have r: "r = [] \<or> \<not> isUpper (last r)"
    proof (cases "r = []")
      case True then show ?thesis by simp
    next
      case False
      then have "last (c # cs) = last r" unfolding eq by simp
      then show ?thesis using nu by simp
    qed
    have ih: "replaceRefs f (r @ rest) = replaceRefs f r @ replaceRefs f rest"
      using "2.IH"(2) [OF Some p [symmetric] r "2.prems"(2)] .
    have "matchRef (c # cs @ rest) = Some (m, r @ rest)" using ma Some p by simp
    then show ?thesis using Some p ih by simp
  qed
qed

lemma matchRef_address:
  assumes "list_all isUpper ls" "ls \<noteq> []" "list_all isDigit ds" "ds \<noteq> []"
    and "post = [] \<or> \<not> isDigit (hd post)"
  shows "matchRef (ls @ ds @ post) = Some (ls @ ds, post)"
proof -
  have nd: "\<not> isUpper (hd (ds @ post))"
    using assms(3,4) by (cases ds) (auto dest: digit_not_upper)
  have u: "takeWhile isUpper (ls @ ds @ post) = ls" "dropWhile isUpper (ls @ ds @ post) = ds @ post"
    using takeWhile_upper_run [OF assms(1), of "ds @ post"] nd by simp_all
  have d: "takeWhile isDigit (ds @ post) = ds" "dropWhile isDigit (ds @ post) = post"
    using takeWhile_digit_run [OF assms(3) assms(5)] by simp_all
  show ?thesis using assms(2,4) by (simp add: matchRef_def Let_def u d)
qed

lemma replaceRefs_address:
  assumes "list_all isUpper ls" "ls \<noteq> []" "list_all isDigit ds" "ds \<noteq> []"
    and "post = [] \<or> \<not> isDigit (hd post)"
  shows "replaceRefs f (ls @ ds @ post) = f (ls @ ds) @ replaceRefs f post"
proof -
  obtain l ls' where ls: "ls = l # ls'" using assms(2) by (cases ls) auto
  have "matchRef (l # ls' @ ds @ post) = Some (ls @ ds, post)"
    using matchRef_address [OF assms] by (simp add: ls)
  then show ?thesis by (simp add: ls)
qed

lemma takeWhile_none: "list_all (\<lambda>c. \<not> P c) xs \<Longrightarrow> takeWhile P xs = []"
  by (cases xs) simp_all

lemma matchRef_no_digit: "list_all (\<lambda>c. \<not> isDigit c) s \<Longrightarrow> matchRef s = None"
proof -
  assume a: "list_all (\<lambda>c. \<not> isDigit c) s"
  have "list_all (\<lambda>c. \<not> isDigit c) (dropWhile isUpper s)"
    using a by (induction s) simp_all
  then have "takeWhile isDigit (dropWhile isUpper s) = []"
    by (rule takeWhile_none)
  then show ?thesis by (simp add: matchRef_def Let_def)
qed

lemma replaceRefs_no_digit: "list_all (\<lambda>c. \<not> isDigit c) s \<Longrightarrow> replaceRefs f s = s"
proof (induction s)
  case Nil
  show ?case by simp
next
  case (Cons c cs)
  have "matchRef (c # cs) = None" by (rule matchRef_no_digit [OF Cons.prems])
  then show ?case using Cons by simp
qed



declare replaceRefs.simps(2) [simp del]

declare cellRefs.simps(2) [simp del]

section \<open>Properties of evaluation and of the store update\<close>


lemma evaluateFormula_formula:
  "evaluateFormula H t (CHR ''='' # e) cs =
     (case jsEvaluate H t (replaceRefs (cellRefText H cs) e) of
        Returns text \<Rightarrow> text
      | Throws \<Rightarrow> ''#ERROR'')"
  by (simp add: evaluateFormula_def startsWith_def)



lemma cells_handleCellValueChange:
  "cells (handleCellValueChange H t r c v st) =
     (cells st)(getCellId H r c \<mapsto>
        \<lparr>cell_id = getCellId H r c, cell_row = r, cell_col = c,
         cell_value = (if detectCellType v = Formula then evaluateFormula H t v (cells st) else v),
         cell_formula = (if detectCellType v = Formula then Some v else None),
         cell_type = detectCellType v, cell_style = None\<rparr>)"
  by (simp add: handleCellValueChange_def Let_def)


lemma letter_not_digit: "isAsciiLetter ch \<Longrightarrow> \<not> isDigit ch"
  by (auto simp: isAsciiLetter_def isDigit_def isUpper_def)

lemma addressPattern_parts:
  assumes "addressPattern a"
  obtains ls ds where "a = ls @ ds" "list_all isUpper ls" "ls \<noteq> []" "list_all isDigit ds" "ds \<noteq> []"
proof -
  have "a = takeWhile isUpper a @ dropWhile isUpper a" by simp
  moreover have "list_all isUpper (takeWhile isUpper a)" by (rule list_all_takeWhile)
  moreover have "takeWhile isUpper a \<noteq> []" "list_all isDigit (dropWhile isUpper a)"
      "dropWhile isUpper a \<noteq> []"
    using assms unfolding addressPattern_split by blast+
  ultimately show ?thesis using that by blast
qed

lemma replaceRefs_colon: "replaceRefs f (CHR '':'' # s) = CHR '':'' # replaceRefs f s"
proof -
  have "\<not> isUpper (CHR '':'')" by (simp add: isUpper_def)
  then have "matchRef (CHR '':'' # s) = None" by (simp add: matchRef_def)
  then show ?thesis by (simp add: replaceRefs.simps(2))
qed

lemma replaceRefs_call_range:
  assumes n: "list_all isAsciiLetter name" and a1: "addressPattern a1" and a2: "addressPattern a2"
  shows "replaceRefs f (name @ ''('' @ a1 @ '':'' @ a2 @ '')'')
       = name @ ''('' @ f a1 @ '':'' @ f a2 @ '')''"
proof -
  obtain l1 d1 where p1: "a1 = l1 @ d1" "list_all isUpper l1" "l1 \<noteq> []"
      "list_all isDigit d1" "d1 \<noteq> []"
    using a1 by (rule addressPattern_parts)
  obtain l2 d2 where p2: "a2 = l2 @ d2" "list_all isUpper l2" "l2 \<noteq> []"
      "list_all isDigit d2" "d2 \<noteq> []"
    using a2 by (rule addressPattern_parts)
  have paren: "\<not> isDigit (CHR ''('')" "\<not> isUpper (CHR ''('')" "\<not> isDigit (CHR '':'')"
      "\<not> isDigit (CHR '')'')"
    by (simp_all add: isDigit_def isUpper_def)
  have nd: "list_all (\<lambda>c. \<not> isDigit c) (name @ ''('')"
    using n paren(1) by (induction name) (auto dest: letter_not_digit)
  have h1: "\<not> isDigit (hd (a1 @ '':'' @ a2 @ '')''))"
    using p1(1,2,3) by (cases l1) (auto dest: upper_not_digit)
  have s1: "replaceRefs f ((name @ ''('') @ (a1 @ '':'' @ a2 @ '')''))
      = replaceRefs f (name @ ''('') @ replaceRefs f (a1 @ '':'' @ a2 @ '')'')"
    by (rule replaceRefs_append) (use paren(2) h1 in simp_all)
  have s2: "replaceRefs f (name @ ''('') = name @ ''(''"
    by (rule replaceRefs_no_digit [OF nd])
  have s3: "replaceRefs f (l1 @ d1 @ ('':'' @ a2 @ '')''))
      = f (l1 @ d1) @ replaceRefs f ('':'' @ a2 @ '')'')"
    by (rule replaceRefs_address [OF p1(2,3,4,5)]) (use paren(3) in simp)
  have s4: "replaceRefs f (l2 @ d2 @ '')'') = f (l2 @ d2) @ replaceRefs f '')''"
    by (rule replaceRefs_address [OF p2(2,3,4,5)]) (use paren(4) in simp)
  have s5: "replaceRefs f '')'' = '')''"
    by (rule replaceRefs_no_digit) (use paren(4) in simp)
  have "replaceRefs f (a1 @ '':'' @ a2 @ '')'') = f a1 @ '':'' @ f a2 @ '')''"
    using s3 s4 s5 by (simp add: p1(1) p2(1) replaceRefs_colon)
  then show ?thesis using s1 s2 by simp
qed

lemma decimalText_chars: "list_all isNumberTextChar (decimalText n)"
proof -
  have "list_all isNumberTextChar (digitsOf k)" if "0 \<le> k" for k
    using digitsOf_digits [OF that] by (simp add: list_all_iff isNumberTextChar_def)
  then show ?thesis by (simp add: decimalText_def isNumberTextChar_def)
qed

lemma cellRefText_chars:
  assumes "numberTextHost H"
  shows "list_all isNumberTextChar (cellRefText H cs m)"
proof -
  have zero: "list_all isNumberTextChar ''0''"
    by (simp add: isNumberTextChar_def isDigit_def)
  have pf: "list_all isNumberTextChar t" if "parseFloatText H v = Some t" for v t
    using that assms decimalText_chars
    by (auto simp: parseFloatText_def numberTextHost_def split: if_splits)
  show ?thesis
    using zero pf by (auto simp: cellRefText_def split: option.splits)
qed

lemma strayColon_call_range:
  assumes "list_all isAsciiLetter name" "list_all isNumberTextChar x" "list_all isNumberTextChar y"
  shows "strayColon (name @ ''('' @ x @ '':'' @ y @ '')'')"
  using assms by (auto simp: strayColon_def isNumberTextChar_def list_all_iff)

lemma evaluateFormula_call_range:
  assumes "numberTextHost H" "list_all isAsciiLetter name" "addressPattern a1" "addressPattern a2"
  shows "evaluateFormula H t (''='' @ name @ ''('' @ a1 @ '':'' @ a2 @ '')'') cs = ''#ERROR''"
proof -
  have "strayColon (name @ ''('' @ cellRefText H cs a1 @ '':'' @ cellRefText H cs a2 @ '')'')"
    by (rule strayColon_call_range [OF assms(2) cellRefText_chars [OF assms(1)]
          cellRefText_chars [OF assms(1)]])
  then have "jsEvaluate H t (replaceRefs (cellRefText H cs) (name @ ''('' @ a1 @ '':'' @ a2 @ '')'')) = Throws"
    by (simp only: replaceRefs_call_range [OF assms(2,3,4)] jsEvaluate_def fixedOutcome_def) simp
  then show ?thesis using evaluateFormula_formula [of H t "name @ ''('' @ a1 @ '':'' @ a2 @ '')''" cs]
    by simp
qed


lemma self_reference_values:
  "map_option cell_value
     (cells (handleCellValueChange H t 0 0 ''=A1+1'' emptyState) ''A1'') = Some ''1'' \<and>
   map_option cell_value
     (cells (handleCellValueChange H u 0 0 ''=A1+1''
               (handleCellValueChange H t 0 0 ''=A1+1'' emptyState)) ''A1'') = Some ''2''"
  by code_simp

lemma clock_values:
  "cellRefs (drop 1 ''=Date.now()'') = [] \<and>
   map_option cell_value
     (cells (handleCellValueChange clockHost 1 0 0 ''=Date.now()'' emptyState) ''A1'')
     = Some ''1'' \<and>
   map_option cell_value
     (cells (handleCellValueChange clockHost 2 0 0 ''=Date.now()''
               (handleCellValueChange clockHost 1 0 0 ''=Date.now()'' emptyState)) ''A1'')
     = Some ''2''"
  by code_simp

section \<open>The claims\<close>

text \<open>
  Claim C7, as stated, fails for large indices: numbers are doubles, and at the index
  \<open>2 ^ 53\<close>, whose letters are BKTXHSOGHKKG, the sum \<open>result * 26 + 7\<close> of the last step
  of \<open>letterToColumn\<close> is \<open>2 ^ 53 + 1\<close>, which is rounded to \<open>2 ^ 53\<close>; the result is
  \<open>2 ^ 53 - 1\<close>.
\<close>

theorem column_letter_roundtrip_rounds:
  "columnToLetter (2 ^ 53) = ''BKTXHSOGHKKG'' \<and>
   letterToColumn (columnToLetter (2 ^ 53)) = Finite (2 ^ 53 - 1) \<and>
   letterToColumn (columnToLetter (2 ^ 53)) \<noteq> Finite (2 ^ 53)"
  by code_simp

text \<open>
  Claim C7, amended. For every column index \<open>c\<close> with \<open>0 \<le> c < 2 ^ 53\<close>,
  \<open>letterToColumn (columnToLetter c) = c\<close>; \<open>columnToLetter\<close> writes the index in
  bijective base 26 over the letters A to Z, so its result is a non-empty word of
  capitals, with 0 written A, 25 written Z and 26 written AA.
\<close>

theorem column_letter_roundtrip:
  "0 \<le> c \<Longrightarrow> c < 2 ^ 53 \<Longrightarrow>
     letterToColumn (columnToLetter c) = Finite c \<and>
     columnToLetter c \<noteq> [] \<and> list_all isUpper (columnToLetter c) \<and>
     columnToLetter 0 = ''A'' \<and> columnToLetter 25 = ''Z'' \<and> columnToLetter 26 = ''AA''"
proof -
  assume c: "0 \<le> c" "c < 2 ^ 53"
  have "columnToLetter 0 = ''A'' \<and> columnToLetter 25 = ''Z'' \<and> columnToLetter 26 = ''AA''"
    by code_simp
  then show ?thesis
    using letterToColumn_columnToLetter [OF c] columnToLetter_nonempty [OF c(1)]
      columnToLetter_upper [of c]
    by simp
qed

text \<open>
  Claim C7, amended, at column 18277, which is written ZZZ, and at the largest index
  \<open>2 ^ 53 - 1\<close>.
\<close>

theorem column_letter_roundtrip_witness:
  "(0::int) \<le> 18277 \<and> (18277::int) < 2 ^ 53 \<and> columnToLetter 18277 = ''ZZZ'' \<and>
   letterToColumn (columnToLetter 18277) = Finite 18277 \<and>
   list_all isUpper (columnToLetter 18277) \<and>
   letterToColumn (columnToLetter (2 ^ 53 - 1)) = Finite (2 ^ 53 - 1)"
proof -
  have h: "(0::int) \<le> 18277" "(18277::int) < 2 ^ 53" by simp_all
  have k: "(0::int) \<le> 2 ^ 53 - 1" "(2::int) ^ 53 - 1 < 2 ^ 53" by simp_all
  have e: "columnToLetter 18277 = ''ZZZ''" by code_simp
  show ?thesis
    using h e column_letter_roundtrip [OF h] column_letter_roundtrip [OF k] by simp
qed

text \<open>
  Claim C6, as stated, fails for large rows: at row \<open>2 ^ 53\<close> the sum \<open>row + 1\<close> is
  rounded back to \<open>2 ^ 53\<close>, the address is A9007199254740992, and parsing it gives row
  \<open>2 ^ 53 - 1\<close>.
\<close>

theorem parse_address_roundtrip_rounds:
  "getCellId basicHost (2 ^ 53) 0 = ''A9007199254740992'' \<and>
   parseCellId basicHost (getCellId basicHost (2 ^ 53) 0) = Inr (Finite (2 ^ 53 - 1), Finite 0) \<and>
   parseCellId basicHost (getCellId basicHost (2 ^ 53) 0) \<noteq> Inr (Finite (2 ^ 53), Finite 0)"
  by code_simp

text \<open>
  Claim C6, amended. For all \<open>row\<close> and \<open>col\<close> from 0 up to \<open>2 ^ 53 - 1\<close>, parsing the
  address that \<open>getCellId\<close> produces gives back \<open>(row, col)\<close>. \<open>parseCellId\<close> accepts
  exactly the texts made of one or more uppercase letters followed by one or more
  digits (row is the number minus one, col is \<open>letterToColumn\<close> of the letters), and
  fails with the invalid-cell-id error on every other text.
\<close>

theorem parse_address_roundtrip:
  "(0 \<le> row \<and> row < 2 ^ 53 \<and> 0 \<le> col \<and> col < 2 ^ 53 \<longrightarrow>
      parseCellId H (getCellId H row col) = Inr (Finite row, Finite col)) \<and>
   (addressPattern s \<longrightarrow>
      parseCellId H s =
        Inr (plusInt (parseInt H (dropWhile isUpper s)) (- 1),
             letterToColumn (takeWhile isUpper s))) \<and>
   (\<not> addressPattern s \<longrightarrow> parseCellId H s = Inl (InvalidCellId s))"
  using parseCellId_getCellId [of row col H] parseCellId_pattern [of H s] by simp

text \<open>
  Claim C6, amended, at row 99 and column 27 (address AB100), and at the rejected text
  A1:B2.
\<close>

theorem parse_address_roundtrip_witness:
  "getCellId basicHost 99 27 = ''AB100'' \<and>
   parseCellId basicHost (getCellId basicHost 99 27) = Inr (Finite 99, Finite 27) \<and>
   addressPattern ''AB100'' \<and> parseCellId basicHost ''AB100'' = Inr (Finite 99, Finite 27) \<and>
   \<not> addressPattern ''A1:B2'' \<and>
   parseCellId basicHost ''A1:B2'' = Inl (InvalidCellId ''A1:B2'')"
proof -
  have g: "getCellId basicHost 99 27 = ''AB100''" by code_simp
  have p: "addressPattern ''AB100''"
    unfolding addressPattern_split by code_simp
  have q: "\<not> addressPattern ''A1:B2''"
    unfolding addressPattern_split by code_simp
  have v: "plusInt (parseInt basicHost (dropWhile isUpper ''AB100'')) (- 1) = Finite 99 \<and>
      letterToColumn (takeWhile isUpper ''AB100'') = Finite 27"
    by code_simp
  have b: "(0::int) \<le> 99 \<and> (99::int) < 2 ^ 53 \<and> (0::int) \<le> 27 \<and> (27::int) < 2 ^ 53"
    by simp
  show ?thesis
    using g p q v b parse_address_roundtrip [of 99 27 basicHost "''AB100''"]
      parse_address_roundtrip [of 0 0 basicHost "''A1:B2''"]
    by simp
qed




text \<open>
  Claim C2. The cell record that the store update writes at the address of
  \<open>(row, col)\<close> has that address as its id and \<open>row\<close>, \<open>col\<close> as its coordinates; its type
  is formula exactly when its formula field is present; a formula cell keeps the input
  text, which starts with \<open>=\<close>, in the formula field, and its value is the text of the
  evaluated result or \<open>#ERROR\<close>. Each commit writes a whole new record: committing a
  non-formula input at an address that held a formula leaves no formula field.
\<close>

theorem store_update_cell_record:
  "\<exists>cell. cells (handleCellValueChange H t row col value st) (getCellId H row col) = Some cell \<and>
      cell_id cell = getCellId H (cell_row cell) (cell_col cell) \<and>
      cell_row cell = row \<and> cell_col cell = col \<and>
      cell_type cell = detectCellType value \<and>
      (cell_type cell = Formula \<longleftrightarrow> cell_formula cell \<noteq> None) \<and>
      (cell_type cell = Formula \<longrightarrow>
         cell_formula cell = Some value \<and> startsWith value ''='' \<and>
         cell_value cell =
           (case jsEvaluate H t (replaceRefs (cellRefText H (cells st)) (drop 1 value)) of
              Returns text \<Rightarrow> text
            | Throws \<Rightarrow> ''#ERROR'')) \<and>
      (detectCellType plain \<noteq> Formula \<longrightarrow>
         (\<exists>cell'. cells (handleCellValueChange H u row col plain
                            (handleCellValueChange H t row col value st)) (getCellId H row col)
                     = Some cell' \<and>
                   cell_formula cell' = None \<and> cell_value cell' = plain \<and>
                   cell_type cell' = detectCellType plain))"
proof (cases "detectCellType value = Formula")
  case True
  then have sw: "startsWith value ''=''" by (simp add: detectCellType_Formula)
  have "evaluateFormula H t value (cells st) =
      (case jsEvaluate H t (replaceRefs (cellRefText H (cells st)) (drop 1 value)) of
         Returns text \<Rightarrow> text
       | Throws \<Rightarrow> ''#ERROR'')"
    using sw by (simp add: evaluateFormula_def)
  then show ?thesis using True sw by (simp add: cells_handleCellValueChange)
next
  case False
  then show ?thesis by (simp add: cells_handleCellValueChange)
qed

text \<open>
  Claim C2 at the formula \<open>=1+2\<close> committed at A1 of the empty collection, followed by
  the number 7 at the same address.
\<close>

theorem store_update_cell_record_witness:
  "\<exists>cell. cells (handleCellValueChange basicHost 1 0 0 ''=1+2'' emptyState) ''A1'' = Some cell \<and>
      cell_id cell = ''A1'' \<and> cell_type cell = Formula \<and>
      cell_formula cell = Some ''=1+2'' \<and> cell_value cell = ''3'' \<and>
      detectCellType ''7'' \<noteq> Formula \<and>
      (\<exists>cell'. cells (handleCellValueChange basicHost 2 0 0 ''7''
                         (handleCellValueChange basicHost 1 0 0 ''=1+2'' emptyState)) ''A1''
                  = Some cell' \<and>
                cell_formula cell' = None \<and> cell_value cell' = ''7'' \<and> cell_type cell' = Number)"
proof -
  have g: "getCellId basicHost 0 0 = ''A1''" by code_simp
  have ty: "detectCellType ''=1+2'' = Formula" "detectCellType ''7'' = Number" by code_simp+
  have e: "(case jsEvaluate basicHost 1
                  (replaceRefs (cellRefText basicHost (cells emptyState)) (drop 1 ''=1+2'')) of
              Returns text \<Rightarrow> text
            | Throws \<Rightarrow> ''#ERROR'') = ''3''"
    by code_simp
  show ?thesis
    using store_update_cell_record [of basicHost 1 0 0 "''=1+2''" emptyState "''7''" 2]
    unfolding g ty e by (elim exE conjE) (auto simp: g)
qed

text \<open>
  Claim C3. For a formula text starting with \<open>=\<close>, \<open>evaluateFormula\<close> returns the text of
  the result when the evaluation of the substituted expression returns, and exactly
  \<open>#ERROR\<close> when it throws; it always returns a text, so no failure reaches the caller
  of the store update, which stores \<open>#ERROR\<close> as the value. A non-finite result is not
  turned into an error: \<open>=1/0\<close> evaluates to \<open>Infinity\<close>. The malformed \<open>=A1+(\<close> on the
  empty collection evaluates to \<open>#ERROR\<close>.
\<close>

theorem evaluateFormula_error_sentinel:
  "evaluateFormula H t (CHR ''='' # e) cs =
     (case jsEvaluate H t (replaceRefs (cellRefText H cs) e) of
        Returns text \<Rightarrow> text
      | Throws \<Rightarrow> ''#ERROR'') \<and>
   evaluateFormula H t ''=A1+('' Map.empty = ''#ERROR'' \<and>
   evaluateFormula H t ''=1/0'' cs = ''Infinity'' \<and>
   map_option cell_value
     (cells (handleCellValueChange H t 0 1 ''=A1+('' emptyState) ''B1'') = Some ''#ERROR''"
proof -
  have a: "evaluateFormula H t ''=A1+('' Map.empty = ''#ERROR''" by code_simp
  have b: "evaluateFormula H t ''=1/0'' cs = ''Infinity''" by code_simp
  have c: "map_option cell_value
     (cells (handleCellValueChange H t 0 1 ''=A1+('' emptyState) ''B1'') = Some ''#ERROR''"
    by code_simp
  show ?thesis using a b c evaluateFormula_formula [of H t e cs] by simp
qed




text \<open>
  Claim C5, as stated, fails: the text \<open>Infinity\<close> is classified as a number although
  it is not a finite numeric literal. The detector tests \<open>!isNaN(Number(value))\<close>, and
  \<open>Number("Infinity")\<close> is the non-finite value \<open>Infinity\<close>, which is not \<open>NaN\<close>.
\<close>

theorem detect_infinity_as_number:
  "detectCellType ''Infinity'' = Number \<and> \<not> finiteNumericLiteral (trim ''Infinity'')"
  by code_simp

text \<open>
  Claim C5, amended. The detector classifies an input as a number exactly when the
  input is non-empty after trimming and the entire trimmed text (not a prefix) is a
  numeric literal of string-to-number conversion, the spellings of infinity included.
  Such a text never classifies as text; an input that is empty after trimming, the
  empty string in particular, classifies as text and never as a number.
\<close>

theorem detect_number_iff:
  "(detectCellType value = Number \<longleftrightarrow>
      trim value \<noteq> [] \<and> isStrNumericLiteral (trim value)) \<and>
   (trim value = [] \<longrightarrow> detectCellType value = Text) \<and>
   detectCellType [] = Text"
  using detectCellType_Number [of "value"]
  by (simp add: detectCellType_def)

text \<open>
  Claim C5, amended, at a blank input, at the padded number \<open>4.5e3\<close> and at \<open>12px\<close>,
  of which only a prefix is a number.
\<close>

theorem detect_number_iff_witness:
  "trim ''  '' = [] \<and> detectCellType ''  '' = Text \<and>
   trim '' 4.5e3 '' \<noteq> [] \<and> isStrNumericLiteral (trim '' 4.5e3 '') \<and>
   detectCellType '' 4.5e3 '' = Number \<and>
   \<not> isStrNumericLiteral (trim ''12px'') \<and> detectCellType ''12px'' \<noteq> Number"
proof -
  have a: "trim ''  '' = []" by code_simp
  have b: "trim '' 4.5e3 '' \<noteq> [] \<and> isStrNumericLiteral (trim '' 4.5e3 '')" by code_simp
  have c: "\<not> isStrNumericLiteral (trim ''12px'')" by code_simp
  show ?thesis
    using a b c detect_number_iff [of "''  ''"] detect_number_iff [of "'' 4.5e3 ''"]
      detect_number_iff [of "''12px''"]
    by simp
qed

text \<open>
  Claim C8. The store update changes only the entry at the address of \<open>(row, col)\<close>:
  the cell at every other address is unchanged, also a formula cell whose formula
  refers to the updated address, whose stored value is therefore not recomputed. The
  selection is unchanged as well.
\<close>

theorem store_update_frame:
  "k \<noteq> getCellId H row col \<Longrightarrow>
   cells (handleCellValueChange H t row col value st) k = cells st k \<and>
   selectedCell (handleCellValueChange H t row col value st) = selectedCell st"
  by (simp add: handleCellValueChange_def Let_def)

text \<open>
  Claim C8 at B1 holding \<open>=A1+1\<close>, computed as 6 while A1 held 5: committing 7 at A1
  leaves the cell at B1 as it was.
\<close>

theorem store_update_frame_witness:
  "''B1'' \<noteq> getCellId basicHost 0 0 \<and>
   ''A1'' \<in> set (cellRefs (drop 1 ''=A1+1'')) \<and>
   map_option cell_value
     (cells (handleCellValueChange basicHost 2 0 1 ''=A1+1''
              (handleCellValueChange basicHost 1 0 0 ''5'' emptyState)) ''B1'') = Some ''6'' \<and>
   cells (handleCellValueChange basicHost 3 0 0 ''7''
           (handleCellValueChange basicHost 2 0 1 ''=A1+1''
             (handleCellValueChange basicHost 1 0 0 ''5'' emptyState))) ''B1''
     = cells (handleCellValueChange basicHost 2 0 1 ''=A1+1''
               (handleCellValueChange basicHost 1 0 0 ''5'' emptyState)) ''B1''"
proof -
  have h: "''B1'' \<noteq> getCellId basicHost 0 0" by code_simp
  have r: "''A1'' \<in> set (cellRefs (drop 1 ''=A1+1''))" by code_simp
  have v: "map_option cell_value
     (cells (handleCellValueChange basicHost 2 0 1 ''=A1+1''
              (handleCellValueChange basicHost 1 0 0 ''5'' emptyState)) ''B1'') = Some ''6''"
    by code_simp
  show ?thesis
    using h r v store_update_frame [OF h, of 3 "''7''"
        "handleCellValueChange basicHost 2 0 1 ''=A1+1''
           (handleCellValueChange basicHost 1 0 0 ''5'' emptyState)"]
    by simp
qed

text \<open>
  Claim C9 says that the formatter returns the stored value unchanged when no calendar
  date can be constructed from it. The code does not: the input \<open>2024-13-45\<close> is
  stored as a date cell, no date can be constructed from it, and the formatter
  returns \<open>Invalid Date\<close>, because the constructor does not throw and the \<open>catch\<close>
  branch that returns the value is never taken.
\<close>

theorem format_invalid_date:
  "detectCellType ''2024-13-45'' = Date \<and>
   cells (handleCellValueChange H t 0 0 ''2024-13-45'' emptyState) ''A1'' =
     Some \<lparr>cell_id = ''A1'', cell_row = 0, cell_col = 0, cell_value = ''2024-13-45'',
           cell_formula = None, cell_type = Date, cell_style = None\<rparr> \<and>
   formatCellValue H
     \<lparr>cell_id = ''A1'', cell_row = 0, cell_col = 0, cell_value = ''2024-13-45'',
      cell_formula = None, cell_type = Date, cell_style = None\<rparr> = ''Invalid Date''"
proof -
  have a: "detectCellType ''2024-13-45'' = Date" by code_simp
  have b: "cells (handleCellValueChange H t 0 0 ''2024-13-45'' emptyState) ''A1'' =
     Some \<lparr>cell_id = ''A1'', cell_row = 0, cell_col = 0, cell_value = ''2024-13-45'',
           cell_formula = None, cell_type = Date, cell_style = None\<rparr>"
    by code_simp
  have c: "formatCellValue H
     \<lparr>cell_id = ''A1'', cell_row = 0, cell_col = 0, cell_value = ''2024-13-45'',
      cell_formula = None, cell_type = Date, cell_style = None\<rparr> = ''Invalid Date''"
    by code_simp
  show ?thesis using a b c by simp
qed

text \<open>
  Claim C10. For every cell collection, a formula that applies a named function to a
  colon range of two addresses, such as the fallback \<open>=SUM(A1:A10)\<close> of the AI command
  bar, evaluates to \<open>#ERROR\<close>: substitution rewrites the two addresses only and leaves
  the name, the parentheses and the colon in place, which is not a valid expression.
  Applying such a formula to the selected cell stores \<open>#ERROR\<close> as its value. The
  texts that \<open>parseFloat\<close> results are written with are those of numbers.
\<close>

theorem named_function_range_error:
  assumes "numberTextHost H" and "list_all isAsciiLetter name"
    and "addressPattern a1" and "addressPattern a2"
    and "formula = ''='' @ name @ ''('' @ a1 @ '':'' @ a2 @ '')''"
  shows "replaceRefs (cellRefText H (cells st)) (drop 1 formula) =
           name @ ''('' @ cellRefText H (cells st) a1 @ '':'' @
           cellRefText H (cells st) a2 @ '')'' \<and>
         evaluateFormula H t formula (cells st) = ''#ERROR'' \<and>
         result_formula fallbackFormulaResult = ''=SUM(A1:A10)'' \<and>
         (selectedCell st = Some (row, col) \<and> result_formula result = formula \<longrightarrow>
            (\<exists>cell. cells (handleFormulaGenerated H t result st) (getCellId H row col) = Some cell \<and>
                    cell_value cell = ''#ERROR'' \<and> cell_type cell = Formula \<and>
                    cell_formula cell = Some formula))"
proof -
  have sub: "replaceRefs (cellRefText H (cells st)) (drop 1 formula) =
           name @ ''('' @ cellRefText H (cells st) a1 @ '':'' @
           cellRefText H (cells st) a2 @ '')''"
    using replaceRefs_call_range [OF assms(2,3,4), of "cellRefText H (cells st)"]
    by (simp add: assms(5))
  have ev: "evaluateFormula H t formula (cells st) = ''#ERROR''"
    unfolding assms(5) by (rule evaluateFormula_call_range [OF assms(1,2,3,4)])
  have ty: "detectCellType formula = Formula"
    by (simp add: detectCellType_Formula startsWith_def assms(5))
  have store: "\<exists>cell. cells (handleFormulaGenerated H t result st) (getCellId H row col) = Some cell \<and>
                    cell_value cell = ''#ERROR'' \<and> cell_type cell = Formula \<and>
                    cell_formula cell = Some formula"
    if "selectedCell st = Some (row, col)" "result_formula result = formula"
    using that ev ty
    by (simp add: handleFormulaGenerated_def Let_def cells_handleCellValueChange)
  show ?thesis using sub ev store by (simp add: fallbackFormulaResult_def)
qed

text \<open>
  Claim C10 at the fallback formula \<open>=SUM(A1:A10)\<close> applied to the selected cell B1
  while A1 holds 5: the substituted expression is \<open>SUM(5:0)\<close>.
\<close>

theorem named_function_range_error_witness:
  "numberTextHost basicHost \<and> list_all isAsciiLetter ''SUM'' \<and>
   addressPattern ''A1'' \<and> addressPattern ''A10'' \<and>
   result_formula fallbackFormulaResult = ''='' @ ''SUM'' @ ''('' @ ''A1'' @ '':'' @ ''A10'' @ '')'' \<and>
   map_option cell_value
     (cells (handleCellValueChange basicHost 1 0 0 ''5'' emptyState) ''A1'') = Some ''5'' \<and>
   replaceRefs
     (cellRefText basicHost (cells (handleCellValueChange basicHost 1 0 0 ''5'' emptyState)))
     ''SUM(A1:A10)'' = ''SUM(5:0)'' \<and>
   evaluateFormula basicHost 2 ''=SUM(A1:A10)''
     (cells (handleCellValueChange basicHost 1 0 0 ''5'' emptyState)) = ''#ERROR'' \<and>
   (\<exists>cell. cells (handleFormulaGenerated basicHost 2 fallbackFormulaResult
                    ((handleCellValueChange basicHost 1 0 0 ''5'' emptyState)
                       \<lparr>selectedCell := Some (0, 1)\<rparr>)) ''B1'' = Some cell \<and>
           cell_value cell = ''#ERROR'' \<and> cell_type cell = Formula \<and>
           cell_formula cell = Some ''=SUM(A1:A10)'')"
proof -
  have h: "numberTextHost basicHost" by (simp add: numberTextHost_def basicHost_def)
  have n: "list_all isAsciiLetter ''SUM''" by code_simp
  have p: "addressPattern ''A1''" "addressPattern ''A10''"
    unfolding addressPattern_split by code_simp+
  have f: "result_formula fallbackFormulaResult = ''='' @ ''SUM'' @ ''('' @ ''A1'' @ '':'' @ ''A10'' @ '')''"
    by code_simp
  have f2: "result_formula fallbackFormulaResult = ''=SUM(A1:A10)''" by code_simp
  have g: "getCellId basicHost 0 1 = ''B1''" by code_simp
  have v: "map_option cell_value
     (cells (handleCellValueChange basicHost 1 0 0 ''5'' emptyState) ''A1'') = Some ''5''"
    by code_simp
  have t: "cellRefText basicHost (cells (handleCellValueChange basicHost 1 0 0 ''5'' emptyState)) ''A1'' = ''5''"
    "cellRefText basicHost (cells (handleCellValueChange basicHost 1 0 0 ''5'' emptyState)) ''A10'' = ''0''"
    by code_simp+
  have s: "selectedCell ((handleCellValueChange basicHost 1 0 0 ''5'' emptyState)
                       \<lparr>selectedCell := Some (0, 1)\<rparr>) = Some (0, 1)"
    "cells ((handleCellValueChange basicHost 1 0 0 ''5'' emptyState)
                       \<lparr>selectedCell := Some (0, 1)\<rparr>)
      = cells (handleCellValueChange basicHost 1 0 0 ''5'' emptyState)"
    by simp_all
  show ?thesis
    using h n p g v t s
      named_function_range_error [OF h n p f,
        where st = "(handleCellValueChange basicHost 1 0 0 ''5'' emptyState)\<lparr>selectedCell := Some (0, 1)\<rparr>"
          and t = 2 and row = 0 and col = 1 and result = fallbackFormulaResult]
    by (simp add: f2)
qed

end
